theory Spec2Isabelle
  imports Complex_Main "HOL-Library.Word" "HOL-Library.Log_Nat"
begin

unbundle bit_operations_syntax

section \<open>Machine types and big-endian helpers (protocol\_v1.c, protocol\_pack.c)\<close>

type_synonym u8 = "8 word"
type_synonym u16 = "16 word"
type_synonym u32 = "32 word"
type_synonym u64 = "64 word"

text \<open>
  \<^verbatim>\<open>be16_read(p)\<close> is \<^verbatim>\<open>(uint16_t)((p[0] << 8) | p[1])\<close>; the pointer \<open>p\<close> is a
  buffer together with an offset into it.
\<close>

definition be16_read :: "u8 list \<Rightarrow> nat \<Rightarrow> u16" where
  "be16_read p off = push_bit 8 (ucast (p ! off) :: u16) OR ucast (p ! (off + 1))"

definition be32_read :: "u8 list \<Rightarrow> nat \<Rightarrow> u32" where
  "be32_read p off =
     push_bit 24 (ucast (p ! off) :: u32) OR push_bit 16 (ucast (p ! (off + 1)) :: u32)
       OR push_bit 8 (ucast (p ! (off + 2)) :: u32) OR ucast (p ! (off + 3))"

definition be16_write :: "u16 \<Rightarrow> u8 list" where
  "be16_write v = [ucast (drop_bit 8 v), ucast (v AND 0xFF)]"

definition be32_write :: "u32 \<Rightarrow> u8 list" where
  "be32_write v =
     [ucast (drop_bit 24 v), ucast (drop_bit 16 v), ucast (drop_bit 8 v), ucast (v AND 0xFF)]"

section \<open>Single-precision arithmetic (the type \<^verbatim>\<open>float\<close>)\<close>

text \<open>
  The \<^verbatim>\<open>float\<close> of the sources is IEEE 754 binary32: an arithmetic operation returns the
  binary32 number nearest to its exact result, a tie going to the neighbour with the even
  significand. A finite \<^verbatim>\<open>float\<close> is modelled by the real number it denotes, and an
  operation by the exact operation on reals followed by \<open>f32_round\<close>.

  Near \<open>x\<close> the binary32 numbers are the integer multiples of
  \<open>f32_quantum x = 2 ^ f32_shift x / 2 ^ 149\<close>. The quantum is \<open>1 / 2 ^ 149\<close> for
  \<open>\<bar>x\<bar> < 2 ^ 24 / 2 ^ 149\<close> (the subnormal numbers and the first binade of normal ones)
  and doubles from one binade to the next, so that the significand \<open>x / f32_quantum x\<close>
  has at most 24 bits: \<open>f32_shift x\<close> is the number of bits of \<open>\<lfloor>\<bar>x\<bar> * 2 ^ 149\<rfloor>\<close> beyond
  24. \<open>round_half_even\<close> is rounding to the nearest integer, ties to even.

  Comparisons, negation and \<^verbatim>\<open>fabsf\<close> are exact. A literal such as \<^verbatim>\<open>0.2f\<close> is
  \<open>f32_round 0.2\<close>. Infinities and NaN are not part of the model (\<open>f32_round\<close> has no
  largest exponent).
\<close>

definition round_half_even :: "real \<Rightarrow> int" where
  "round_half_even x =
     (let f = \<lfloor>x\<rfloor>; r = x - of_int f
      in if r < 1 / 2 then f else if r > 1 / 2 then f + 1 else if even f then f else f + 1)"

definition f32_shift :: "real \<Rightarrow> nat" where
  "f32_shift x = nat (bitlen \<lfloor>\<bar>x\<bar> * 2 ^ 149\<rfloor> - 24)"

definition f32_quantum :: "real \<Rightarrow> real" where
  "f32_quantum x = 2 ^ f32_shift x / 2 ^ 149"

definition f32_round :: "real \<Rightarrow> real" where
  "f32_round x = of_int (round_half_even (x / f32_quantum x)) * f32_quantum x"

text \<open>The real numbers that are binary32 numbers.\<close>

definition is_f32 :: "real \<Rightarrow> bool" where
  "is_f32 x \<longleftrightarrow> f32_round x = x"

definition f32_add :: "real \<Rightarrow> real \<Rightarrow> real" where
  "f32_add x y = f32_round (x + y)"

definition f32_sub :: "real \<Rightarrow> real \<Rightarrow> real" where
  "f32_sub x y = f32_round (x - y)"

definition f32_mul :: "real \<Rightarrow> real \<Rightarrow> real" where
  "f32_mul x y = f32_round (x * y)"

definition f32_div :: "real \<Rightarrow> real \<Rightarrow> real" where
  "f32_div x y = f32_round (x / y)"

text \<open>The conversion \<^verbatim>\<open>(float)i\<close> of an integer.\<close>

definition f32_of_int :: "int \<Rightarrow> real" where
  "f32_of_int i = f32_round (of_int i)"

section \<open>CRC-16/CCITT-FALSE\<close>

text \<open>
  Device side (crc16\_ccitt.c): \<^verbatim>\<open>crc ^= (uint16_t)(*data++) << 8\<close>, then eight rounds of
  \<^verbatim>\<open>crc = (crc & 0x8000) ? (crc << 1) ^ 0x1021 : (crc << 1)\<close>, the result truncated to
  16 bits by the assignment.
\<close>

definition crc16_round :: "u16 \<Rightarrow> u16" where
  "crc16_round crc =
     (if crc AND 0x8000 \<noteq> 0 then push_bit 1 crc XOR 0x1021 else push_bit 1 crc)"

definition crc16_byte :: "u16 \<Rightarrow> u8 \<Rightarrow> u16" where
  "crc16_byte crc b = (crc16_round ^^ 8) (crc XOR push_bit 8 (ucast b))"

definition crc16_update :: "u16 \<Rightarrow> u8 list \<Rightarrow> u16" where
  "crc16_update crc data = foldl crc16_byte crc data"

definition crc16_ccitt :: "u8 list \<Rightarrow> u16" where
  "crc16_ccitt data = crc16_update 0xFFFF data"

text \<open>
  Host side (the static \<^verbatim>\<open>crc16_ccitt\<close> of protocol\_pack.c): the same loop, written with
  the initial value inline.
\<close>

definition pack_crc16_ccitt :: "u8 list \<Rightarrow> u16" where
  "pack_crc16_ccitt data =
     foldl (\<lambda>crc b. (crc16_round ^^ 8) (crc XOR push_bit 8 (ucast b))) 0xFFFF data"

section \<open>Device: receive buffer, statistics, effects (protocol\_v1.c)\<close>

text \<open>
  A frame that passed every check and reached the \<^verbatim>\<open>switch (msg)\<close> of
  \<^verbatim>\<open>try_parse_one_frame\<close>. The list \<open>dispatched\<close> below is a history variable: it
  records these frames in order and is never read by the code.
\<close>

datatype frame = Frame (f_msg: u8) (f_seq: u16) (f_ticks: u32) (f_payload: "u8 list")

text \<open>
  The static variables of protocol\_v1.c. \<open>rxbuf\<close> is the occupied prefix
  \<^verbatim>\<open>s_rxbuf[0 .. s_rxlen)\<close>, so \<^verbatim>\<open>s_rxlen\<close> is its length. The calls the module makes
  to its collaborators are recorded as output: \<open>pwm_out\<close> holds the
  \<^verbatim>\<open>Driver_pwm_SetDuty(ch, duty)\<close> calls, \<open>uart_tx\<close> the buffers handed to
  \<^verbatim>\<open>HAL_UART_Transmit\<close>. The duty is a \<^verbatim>\<open>float\<close>.
\<close>

record dev_state =
  rxbuf :: "u8 list"
  rx_ok :: u32
  rx_crc_err :: u32
  rx_len_err :: u32
  rx_unsupported :: u32
  last_ok_rx_ms :: u32
  failsafe_timeout_ms :: u32
  protocol_flag :: u8
  pwm_out :: "(nat \<times> real) list"
  uart_tx :: "u8 list list"
  dispatched :: "frame list"

definition RX_BUF_CAP :: nat where
  "RX_BUF_CAP = 512"

definition MIN_FRAME_LEN :: nat where
  "MIN_FRAME_LEN = 14"

definition PROTO_VER_1 :: u8 where
  "PROTO_VER_1 = 0x01"

definition MSG_PWM :: u8 where
  "MSG_PWM = 0x01"

definition MSG_HB :: u8 where
  "MSG_HB = 0x10"

definition MSG_HB_ACK :: u8 where
  "MSG_HB_ACK = 0x11"

definition CFG_FAILSAFE_TIMEOUT_MS :: u32 where
  "CFG_FAILSAFE_TIMEOUT_MS = 300"

text \<open>\<^verbatim>\<open>protocol_init\<close> followed by \<^verbatim>\<open>protocol_flag = 0\<close>; \<open>now\<close> is \<^verbatim>\<open>HAL_GetTick()\<close>.\<close>

definition protocol_init :: "u32 \<Rightarrow> dev_state" where
  "protocol_init now =
     \<lparr> rxbuf = [], rx_ok = 0, rx_crc_err = 0, rx_len_err = 0, rx_unsupported = 0,
       last_ok_rx_ms = now, failsafe_timeout_ms = CFG_FAILSAFE_TIMEOUT_MS,
       protocol_flag = 0, pwm_out = [], uart_tx = [], dispatched = [] \<rparr>"

text \<open>
  \<^verbatim>\<open>protocol_feed_bytes(data, n)\<close>: nothing happens while \<^verbatim>\<open>protocol_flag\<close> is set, or
  for an empty chunk. A chunk longer than the buffer keeps its last 512 bytes and clears
  the buffer; otherwise the oldest \<open>over\<close> bytes are shifted out to make room.
\<close>

definition protocol_feed_bytes :: "u8 list \<Rightarrow> dev_state \<Rightarrow> dev_state" where
  "protocol_feed_bytes data s =
     (if protocol_flag s = 0 then
        (if data = [] then s
         else
           let n = length data;
               (data1, buf1) =
                 (if n > RX_BUF_CAP then (drop (n - RX_BUF_CAP) data, []) else (data, rxbuf s));
               n1 = length data1;
               buf2 =
                 (if length buf1 + n1 > RX_BUF_CAP
                  then drop ((length buf1 + n1) - RX_BUF_CAP) buf1 else buf1)
           in s\<lparr>rxbuf := buf2 @ data1, protocol_flag := 1\<rparr>)
      else s)"

text \<open>\<^verbatim>\<open>enter_failsafe_mid_all\<close>: eight \<^verbatim>\<open>Driver_pwm_SetDuty(ch, 0.0f)\<close> calls.\<close>

definition neutral_calls :: "(nat \<times> real) list" where
  "neutral_calls = map (\<lambda>ch. (ch, 0)) [1, 2, 3, 4, 5, 6, 7, 8]"

definition enter_failsafe_mid_all :: "dev_state \<Rightarrow> dev_state" where
  "enter_failsafe_mid_all s = s\<lparr>pwm_out := pwm_out s @ neutral_calls\<rparr>"

text \<open>
  \<^verbatim>\<open>protocol_poll\<close>: the unsigned 32-bit difference \<^verbatim>\<open>now - s_last_ok_rx_ms\<close> is
  compared with the timeout; on expiry the outputs go to neutral and the timestamp is
  refreshed to \<open>now\<close>.
\<close>

definition protocol_poll :: "u32 \<Rightarrow> dev_state \<Rightarrow> dev_state" where
  "protocol_poll now s =
     (if now - last_ok_rx_ms s > failsafe_timeout_ms s
      then (enter_failsafe_mid_all s)\<lparr>last_ok_rx_ms := now\<rparr>
      else s)"

definition protocol_set_failsafe_timeout_ms :: "u32 \<Rightarrow> dev_state \<Rightarrow> dev_state" where
  "protocol_set_failsafe_timeout_ms ms s =
     s\<lparr>failsafe_timeout_ms := (if ms < 50 then 50 else ms)\<rparr>"

section \<open>Device: frame parser and dispatch (protocol\_v1.c)\<close>

text \<open>
  \<^verbatim>\<open>handle_msg_pwm\<close>: each big-endian value is cut to at most 10000 (\<open>pwm_payload_values\<close>
  is the list of the eight \<^verbatim>\<open>vv\<close>), mapped to \<^verbatim>\<open>(float)((int32_t)vv - 5000) / 5000.0f\<close>,
  limited to \<open>[-1, 1]\<close>, and handed to channels 1 to 8. A length other than 16 only
  counts \<^verbatim>\<open>rx_len_err\<close>.
\<close>

definition pwm_payload_values :: "u8 list \<Rightarrow> u16 list" where
  "pwm_payload_values payload =
     map (\<lambda>i. let v = be16_read payload (i * 2) in if v > 10000 then 10000 else v) [0..<8]"

definition duty_of :: "u16 \<Rightarrow> real" where
  "duty_of vv =
     (let d = f32_div (f32_of_int (uint vv - 5000)) 5000;
          d1 = (if d > 1 then 1 else d)
      in if d1 < -1 then -1 else d1)"

definition handle_msg_pwm :: "u8 list \<Rightarrow> u16 \<Rightarrow> dev_state \<Rightarrow> dev_state" where
  "handle_msg_pwm payload len s =
     (if len \<noteq> 16 then s\<lparr>rx_len_err := rx_len_err s + 1\<rparr>
      else s\<lparr>pwm_out := pwm_out s @
             zip [1, 2, 3, 4, 5, 6, 7, 8] (map duty_of (pwm_payload_values payload))\<rparr>)"

text \<open>
  \<^verbatim>\<open>handle_msg_hb(seq, ticks)\<close> with \<^verbatim>\<open>CFG_HB_ACK_ENABLE = 1\<close>: the 14-byte reply carries
  the received \<open>seq\<close> and the device's own \<^verbatim>\<open>HAL_GetTick()\<close> (\<open>now\<close>); the parameter
  \<open>ticks\<close> is not used by the body.
\<close>

definition hb_ack_frame :: "u16 \<Rightarrow> u32 \<Rightarrow> u8 list" where
  "hb_ack_frame seq now =
     (let body = [PROTO_VER_1, MSG_HB_ACK] @ be16_write seq @ be32_write now @ be16_write 0
      in [0xAA, 0x55] @ body @ be16_write (crc16_ccitt body))"

definition handle_msg_hb :: "u32 \<Rightarrow> u16 \<Rightarrow> u32 \<Rightarrow> dev_state \<Rightarrow> dev_state" where
  "handle_msg_hb now seq ticks s = s\<lparr>uart_tx := uart_tx s @ [hb_ack_frame seq now]\<rparr>"

text \<open>
  The start-of-frame scan of \<^verbatim>\<open>try_parse_one_frame\<close>:
  \<^verbatim>\<open>while (pos + 1 < s_rxlen) { if (buf[pos] == 0xAA && buf[pos+1] == 0x55) break; ++pos; }\<close>
\<close>

function sof_scan :: "u8 list \<Rightarrow> nat \<Rightarrow> nat" where
  "sof_scan buf pos =
     (if pos + 1 < length buf
      then (if buf ! pos = 0xAA \<and> buf ! (pos + 1) = 0x55 then pos else sof_scan buf (pos + 1))
      else pos)"
  by pat_completeness auto
termination
  by (relation "measure (\<lambda>(buf, pos). length buf - pos)") auto

declare sof_scan.simps [simp del]

text \<open>The \<^verbatim>\<open>switch (msg)\<close> on a frame that passed the version, length and CRC checks.\<close>

definition dispatch_frame ::
  "u32 \<Rightarrow> u8 \<Rightarrow> u16 \<Rightarrow> u32 \<Rightarrow> u16 \<Rightarrow> u8 list \<Rightarrow> dev_state \<Rightarrow> dev_state" where
  "dispatch_frame now msg seq ticks len payload s =
     (let s0 = s\<lparr>dispatched := dispatched s @ [Frame msg seq ticks payload]\<rparr> in
      if msg = MSG_PWM then
        (let s1 = handle_msg_pwm payload len (s0\<lparr>last_ok_rx_ms := now\<rparr>)
         in s1\<lparr>rx_ok := rx_ok s1 + 1\<rparr>)
      else if msg = MSG_HB then
        (let s1 = handle_msg_hb now seq ticks (s0\<lparr>last_ok_rx_ms := now\<rparr>)
         in s1\<lparr>rx_ok := rx_ok s1 + 1\<rparr>)
      else if msg = MSG_HB_ACK then s0\<lparr>rx_unsupported := rx_unsupported s0 + 1\<rparr>
      else s0\<lparr>rx_unsupported := rx_unsupported s0 + 1\<rparr>)"

text \<open>
  \<^verbatim>\<open>try_parse_one_frame(&consumed)\<close> returns the flag, \<open>consumed\<close> and the new state.
  \<open>frame_len\<close> is computed in 32 bits from the 16-bit length field, so it cannot wrap;
  past the check \<open>frame_len \<le> 512\<close> the 16-bit casts of \<open>10 + len\<close> and \<open>frame_len\<close>
  lose nothing.
\<close>

definition try_parse_one_frame :: "u32 \<Rightarrow> dev_state \<Rightarrow> bool \<times> nat \<times> dev_state" where
  "try_parse_one_frame now s =
     (let buf = rxbuf s in
      if length buf < 1 then (False, 0, s)
      else
        let pos = sof_scan buf 0 in
        if pos > 0 then (True, pos, s)
        else if length buf < MIN_FRAME_LEN then (False, 0, s)
        else
          let ver = buf ! 2;
              msg = buf ! 3;
              seq = be16_read buf 4;
              ticks = be32_read buf 6;
              len = be16_read buf 10
          in
          if ver \<noteq> PROTO_VER_1 then (True, 1, s\<lparr>rx_unsupported := rx_unsupported s + 1\<rparr>)
          else
            let frame_len = 12 + unat len + 2 in
            if frame_len > RX_BUF_CAP then (True, 1, s\<lparr>rx_len_err := rx_len_err s + 1\<rparr>)
            else if length buf < frame_len then (False, 0, s)
            else
              let crc_calc = crc16_ccitt (take (10 + unat len) (drop 2 buf));
                  crc_rx = be16_read buf (12 + unat len)
              in
              if crc_calc \<noteq> crc_rx then (True, 1, s\<lparr>rx_crc_err := rx_crc_err s + 1\<rparr>)
              else
                let payload = take (unat len) (drop 12 buf)
                in (True, frame_len, dispatch_frame now msg seq ticks len payload s))"

lemma sof_scan_le: "pos < length buf \<Longrightarrow> sof_scan buf pos < length buf"
proof (induction buf pos rule: sof_scan.induct)
  case (1 buf pos)
  show ?case
    using 1 by (subst sof_scan.simps) simp
qed

lemma dispatch_frame_rxbuf: "rxbuf (dispatch_frame now msg seq ticks len payload s) = rxbuf s"
  by (simp add: dispatch_frame_def handle_msg_pwm_def handle_msg_hb_def Let_def)

lemma try_parse_consumed:
  assumes "try_parse_one_frame now s = (True, c, s')"
  shows "0 < c \<and> c \<le> length (rxbuf s) \<and> rxbuf s' = rxbuf s"
proof -
  have "rxbuf s \<noteq> [] \<Longrightarrow> sof_scan (rxbuf s) 0 < length (rxbuf s)"
    by (rule sof_scan_le) simp
  with assms show ?thesis
    unfolding try_parse_one_frame_def Let_def MIN_FRAME_LEN_def
    by (auto simp: dispatch_frame_rxbuf split: if_splits)
qed

text \<open>
  \<^verbatim>\<open>process_rx_buffer\<close>: the \<^verbatim>\<open>for (;;)\<close> loop. After a successful call the consumed
  bytes are moved out of the buffer (when \<open>consumed > 0\<close>) and the loop goes on; it stops
  at the first call that returns false. One value \<open>now\<close> stands for the
  \<^verbatim>\<open>HAL_GetTick()\<close> readings of one drain.
\<close>

function process_rx_buffer :: "u32 \<Rightarrow> dev_state \<Rightarrow> dev_state" where
  "process_rx_buffer now s =
     (case try_parse_one_frame now s of
        (False, consumed, s') \<Rightarrow> s'
      | (True, consumed, s') \<Rightarrow>
          process_rx_buffer now
            (if consumed > 0 then s'\<lparr>rxbuf := drop consumed (rxbuf s')\<rparr> else s'))"
  by pat_completeness auto
termination
  apply (relation "measure (\<lambda>(now, s). length (rxbuf s))")
   apply simp
  subgoal for now s x1 x2 consumed s'
    using try_parse_consumed [of now s consumed s'] by auto
  done

declare process_rx_buffer.simps [simp del]

text \<open>The number of \<^verbatim>\<open>try_parse_one_frame\<close> calls of one drain that returned true.\<close>

function process_rx_iterations :: "u32 \<Rightarrow> dev_state \<Rightarrow> nat" where
  "process_rx_iterations now s =
     (case try_parse_one_frame now s of
        (False, consumed, s') \<Rightarrow> 0
      | (True, consumed, s') \<Rightarrow>
          Suc (process_rx_iterations now
            (if consumed > 0 then s'\<lparr>rxbuf := drop consumed (rxbuf s')\<rparr> else s')))"
  by pat_completeness auto
termination
  apply (relation "measure (\<lambda>(now, s). length (rxbuf s))")
   apply simp
  subgoal for now s x1 x2 consumed s'
    using try_parse_consumed [of now s consumed s'] by auto
  done

declare process_rx_iterations.simps [simp del]

text \<open>\<^verbatim>\<open>protocol_process\<close>, called from the main loop.\<close>

definition protocol_process :: "u32 \<Rightarrow> dev_state \<Rightarrow> dev_state" where
  "protocol_process now s =
     (if protocol_flag s = 1 then (process_rx_buffer now s)\<lparr>protocol_flag := 0\<rparr> else s)"

section \<open>Host: the lightweight packer (protocol\_pack.c)\<close>

text \<open>
  \<^verbatim>\<open>be32_write\<close> of protocol\_pack.c writes the last byte as \<^verbatim>\<open>(uint8_t)(v)\<close>, without the
  mask; \<^verbatim>\<open>be16_write\<close> is the one of the device.
\<close>

definition pack_be32_write :: "u32 \<Rightarrow> u8 list" where
  "pack_be32_write v =
     [ucast (drop_bit 24 v), ucast (drop_bit 16 v), ucast (drop_bit 8 v), ucast v]"

text \<open>
  \<^verbatim>\<open>protocol_pack_pwm(pwm8, out_buf, out_cap, &out_len)\<close>. \<open>pwm8\<close> is the caller's array of
  eight values, \<open>ticks\<close> the reading of \<^verbatim>\<open>host_ticks_ms()\<close>, \<open>seq\<close> the static \<^verbatim>\<open>s_seq\<close>.
  The result is \<open>None\<close> for \<^verbatim>\<open>false\<close>, otherwise the bytes written (\<open>out_len\<close> is their
  number) and the incremented sequence counter.
\<close>

definition protocol_pack_pwm :: "u16 list \<Rightarrow> nat \<Rightarrow> u32 \<Rightarrow> u16 \<Rightarrow> (u8 list \<times> u16) option" where
  "protocol_pack_pwm pwm8 out_cap ticks seq =
     (let len = 16 :: u16;
          total = 12 + unat len + 2
      in if out_cap < total then None
         else
           let head = [0xAA, 0x55, PROTO_VER_1, MSG_PWM] @ be16_write seq @
                      pack_be32_write ticks @ be16_write len;
               payload = concat (map (\<lambda>i. let v = pwm8 ! i
                                            in be16_write (if v > 10000 then 10000 else v))
                                     [0..<8]);
               crc = pack_crc16_ccitt (take (10 + unat len) (drop 2 (head @ payload)))
           in Some (head @ payload @ be16_write crc, seq + 1))"

definition protocol_pack_heartbeat :: "nat \<Rightarrow> u32 \<Rightarrow> u16 \<Rightarrow> (u8 list \<times> u16) option" where
  "protocol_pack_heartbeat out_cap ticks seq =
     (let len = 0 :: u16;
          total = 12 + 2
      in if out_cap < total then None
         else
           let head = [0xAA, 0x55, PROTO_VER_1, MSG_HB] @ be16_write seq @
                      pack_be32_write ticks @ be16_write len;
               crc = pack_crc16_ccitt (take 10 (drop 2 head))
           in Some (head @ be16_write crc, seq + 1))"

section \<open>Valid frames on the wire\<close>

text \<open>
  \<open>frame_at b\<close>: the bytes \<open>b\<close> begin with a complete valid frame of protocol v1 (start
  marker \<open>AA 55\<close>, version 1, a total length of at most the buffer capacity that the bytes
  cover, and a matching CRC over version to payload). \<open>frame_valid f\<close>: \<open>f\<close> is exactly
  one such frame. \<open>frame_of\<close> reads the fields.
\<close>

definition frame_at :: "u8 list \<Rightarrow> bool" where
  "frame_at b \<longleftrightarrow>
     14 \<le> length b \<and> b ! 0 = 0xAA \<and> b ! 1 = 0x55 \<and> b ! 2 = PROTO_VER_1 \<and>
     (let n = 14 + unat (be16_read b 10)
      in n \<le> RX_BUF_CAP \<and> n \<le> length b \<and>
         crc16_ccitt (take (n - 4) (drop 2 b)) = be16_read b (n - 2))"

definition frame_valid :: "u8 list \<Rightarrow> bool" where
  "frame_valid f \<longleftrightarrow> frame_at f \<and> length f = 14 + unat (be16_read f 10)"

definition frame_of :: "u8 list \<Rightarrow> frame" where
  "frame_of b =
     Frame (b ! 3) (be16_read b 4) (be32_read b 6) (take (unat (be16_read b 10)) (drop 12 b))"

text \<open>
  The frame layout of the header comment of protocol\_v1.h, as a function of the fields:
  \<open>SOF(2) VER(1) MSG(1) SEQ(2) TICKS(4) LEN(2) PAYLOAD(n) CRC(2)\<close>, big-endian, the CRC
  over \<open>VER .. PAYLOAD\<close>.
\<close>

definition v1_body :: "u8 \<Rightarrow> u16 \<Rightarrow> u32 \<Rightarrow> u8 list \<Rightarrow> u8 list" where
  "v1_body msg seq ticks payload =
     [PROTO_VER_1, msg] @ be16_write seq @ be32_write ticks @
     be16_write (of_nat (length payload)) @ payload"

definition v1_frame :: "u8 \<Rightarrow> u16 \<Rightarrow> u32 \<Rightarrow> u8 list \<Rightarrow> u8 list" where
  "v1_frame msg seq ticks payload =
     [0xAA, 0x55] @ v1_body msg seq ticks payload @
     be16_write (crc16_ccitt (v1_body msg seq ticks payload))"

section \<open>Host: the UDP sender library (libpwm\_host.c)\<close>

text \<open>
  Percentages are \<^verbatim>\<open>float\<close>; the three range constants are binary32 numbers.
  \<^verbatim>\<open>(int)x\<close> truncates towards zero.
\<close>

datatype pwmh_result =
  PWMH_OK | PWMH_EINVAL | PWMH_ENOTINIT | PWMH_ESYS | PWMH_EBUSY | PWMH_EINTERNAL

definition PWM_HOST_PCT_MIN :: real where
  "PWM_HOST_PCT_MIN = 5"

definition PWM_HOST_PCT_MID :: real where
  "PWM_HOST_PCT_MID = 7.5"

definition PWM_HOST_PCT_MAX :: real where
  "PWM_HOST_PCT_MAX = 10"

definition PWM_HOST_VAL_MIN :: int where
  "PWM_HOST_VAL_MIN = 0"

definition PWM_HOST_VAL_MID :: int where
  "PWM_HOST_VAL_MID = 5000"

definition PWM_HOST_VAL_MAX :: int where
  "PWM_HOST_VAL_MAX = 10000"

definition c_trunc :: "real \<Rightarrow> int" where
  "c_trunc x = (if x \<ge> 0 then \<lfloor>x\<rfloor> else \<lceil>x\<rceil>)"

definition pwm_host_percent_to_u16 :: "real \<Rightarrow> u16" where
  "pwm_host_percent_to_u16 pct =
     (let p1 = (if pct < PWM_HOST_PCT_MIN then PWM_HOST_PCT_MIN else pct);
          p2 = (if p1 > PWM_HOST_PCT_MAX then PWM_HOST_PCT_MAX else p1);
          norm = f32_div (f32_sub p2 PWM_HOST_PCT_MIN)
                   (f32_sub PWM_HOST_PCT_MAX PWM_HOST_PCT_MIN);
          v = c_trunc (f32_add (f32_mul norm (f32_of_int PWM_HOST_VAL_MAX)) 0.5);
          v1 = (if v < PWM_HOST_VAL_MIN then PWM_HOST_VAL_MIN else v);
          v2 = (if v1 > PWM_HOST_VAL_MAX then PWM_HOST_VAL_MAX else v1)
      in word_of_int v2)"

text \<open>
  The static variables of libpwm\_host.c that the send path touches. \<open>h_sent\<close> records the
  datagrams handed to \<^verbatim>\<open>sendto\<close>.
\<close>

record host_state =
  h_sock :: int
  h_seq :: u16
  h_shadow :: "u16 list"
  h_tx_pwm :: u64
  h_tx_err :: u64
  h_sent :: "u8 list list"

text \<open>
  \<^verbatim>\<open>crc16_ccitt_false\<close> and \<^verbatim>\<open>v1_pack\<close>: \<^verbatim>\<open>htons\<close>/\<^verbatim>\<open>htonl\<close> followed by \<^verbatim>\<open>memcpy\<close> store the
  big-endian bytes. \<open>ticks\<close> is the reading of \<^verbatim>\<open>ticks_ms()\<close>. The sequence counter is
  incremented before it is written.
\<close>

definition crc16_ccitt_false :: "u8 list \<Rightarrow> u16" where
  "crc16_ccitt_false data =
     foldl (\<lambda>crc b. (crc16_round ^^ 8) (crc XOR push_bit 8 (ucast b))) 0xFFFF data"

definition v1_pack ::
  "u8 \<Rightarrow> u8 list \<Rightarrow> nat \<Rightarrow> u32 \<Rightarrow> host_state \<Rightarrow> (pwmh_result \<times> u8 list) \<times> host_state" where
  "v1_pack msg_id payload out_cap ticks h =
     (let need = 12 + length payload + 2 in
      if out_cap < need then ((PWMH_EINVAL, []), h)
      else
        let h1 = h\<lparr>h_seq := h_seq h + 1\<rparr>;
            head = [0xAA, 0x55, 0x01, msg_id] @ be16_write (h_seq h1) @ be32_write ticks @
                   be16_write (of_nat (length payload));
            out = head @ payload;
            crc = crc16_ccitt_false (take (10 + length payload) (drop 2 out))
        in ((PWMH_OK, out @ be16_write crc), h1))"

text \<open>
  \<^verbatim>\<open>v1_send_frame\<close>: \<open>sent_ok\<close> says whether \<^verbatim>\<open>sendto\<close> accepted all the bytes.
\<close>

definition v1_send_frame ::
  "bool \<Rightarrow> u32 \<Rightarrow> u8 \<Rightarrow> u8 list \<Rightarrow> host_state \<Rightarrow> pwmh_result \<times> host_state" where
  "v1_send_frame sent_ok ticks msg_id payload h =
     (if h_sock h < 0 then (PWMH_ENOTINIT, h)
      else
        case v1_pack msg_id payload 30 ticks h of
          ((PWMH_OK, buf), h1) \<Rightarrow>
            (let h2 = h1\<lparr>h_sent := h_sent h1 @ [buf]\<rparr> in
             if \<not> sent_ok then (PWMH_ESYS, h2\<lparr>h_tx_err := h_tx_err h2 + 1\<rparr>)
             else (PWMH_OK, h2))
        | ((r, buf), h1) \<Rightarrow> (r, h1))"

definition pwm_host_set_all_u16 ::
  "bool \<Rightarrow> u32 \<Rightarrow> u16 list \<Rightarrow> host_state \<Rightarrow> pwmh_result \<times> host_state" where
  "pwm_host_set_all_u16 sent_ok ticks v h =
     (if h_sock h < 0 then (PWMH_ENOTINIT, h)
      else
        let payload16 = map (\<lambda>i. if v ! i > 10000 then 10000 else v ! i) [0..<8];
            h1 = h\<lparr>h_shadow := payload16\<rparr>;
            payload = concat (map be16_write payload16);
            (rc, h2) = v1_send_frame sent_ok ticks 0x01 payload h1
        in if rc = PWMH_OK then (rc, h2\<lparr>h_tx_pwm := h_tx_pwm h2 + 1\<rparr>)
           else (rc, h2\<lparr>h_tx_err := h_tx_err h2 + 1\<rparr>))"

definition pwm_host_set_all_pct ::
  "bool \<Rightarrow> u32 \<Rightarrow> real list \<Rightarrow> host_state \<Rightarrow> pwmh_result \<times> host_state" where
  "pwm_host_set_all_pct sent_ok ticks pct h =
     (if h_sock h < 0 then (PWMH_ENOTINIT, h)
      else
        let vv = map (\<lambda>i. pwm_host_percent_to_u16
                            (if pct ! i < 0 then PWM_HOST_PCT_MID else pct ! i)) [0..<8]
        in pwm_host_set_all_u16 sent_ok ticks vv h)"

definition pwm_host_set_ch_pct ::
  "bool \<Rightarrow> u32 \<Rightarrow> int \<Rightarrow> real \<Rightarrow> host_state \<Rightarrow> pwmh_result \<times> host_state" where
  "pwm_host_set_ch_pct sent_ok ticks ch pct h =
     (if h_sock h < 0 then (PWMH_ENOTINIT, h)
      else if ch < 1 \<or> ch > 8 then (PWMH_EINVAL, h)
      else
        let p = (if pct < 0 then PWM_HOST_PCT_MID else pct);
            vv = (map (\<lambda>i. h_shadow h ! i) [0..<8])[nat (ch - 1) := pwm_host_percent_to_u16 p]
        in pwm_host_set_all_u16 sent_ok ticks vv h)"

section \<open>Host: the command shaper (pwm\_control.c)\<close>

definition PWM_CH_MASK_ALL :: u8 where
  "PWM_CH_MASK_ALL = 0xFF"

definition PWM_CH_MASK_1_4 :: u8 where
  "PWM_CH_MASK_1_4 = 0x0F"

definition PWM_CH_MASK_5_8 :: u8 where
  "PWM_CH_MASK_5_8 = 0xF0"

definition PWM_CTRL_GROUP_MODE_ALL :: int where
  "PWM_CTRL_GROUP_MODE_ALL = 0"

definition PWM_CTRL_GROUP_MODE_AB_ALTERNATE :: int where
  "PWM_CTRL_GROUP_MODE_AB_ALTERNATE = 1"

definition PWM_CTRL_OK :: int where
  "PWM_CTRL_OK = 0"

definition PWM_CTRL_ERR_NOT_INIT :: int where
  "PWM_CTRL_ERR_NOT_INIT = -1"

definition PWM_CTRL_ERR_INVALID_ARG :: int where
  "PWM_CTRL_ERR_INVALID_ARG = -2"

definition PWM_CTRL_ERR_INTERNAL :: int where
  "PWM_CTRL_ERR_INTERNAL = -3"

record pwm_ctrl_config =
  ctrl_hz :: real
  max_step_pct :: real
  min_pct :: real
  mid_pct :: real
  max_pct :: real
  enable_reverse_protection :: int
  groupA_mask :: u8
  groupB_mask :: u8
  group_mode :: int

text \<open>The static variables of pwm\_control.c; the two arrays have eight entries.\<close>

record ctrl_state =
  s_inited :: int
  s_cfg :: pwm_ctrl_config
  s_current_pct :: "real list"
  s_target_pct :: "real list"
  s_step_count :: u64
  s_group_toggle :: int

definition max_step_pct_effective :: "ctrl_state \<Rightarrow> real" where
  "max_step_pct_effective s =
     (if max_step_pct (s_cfg s) \<le> 0 then 100 else max_step_pct (s_cfg s))"

definition ch_in_mask :: "int \<Rightarrow> u8 \<Rightarrow> bool" where
  "ch_in_mask ch msk =
     (if ch < 1 \<or> ch > 8 then False
      else msk AND (push_bit (nat (ch - 1)) 1) \<noteq> 0)"

text \<open>
  \<^verbatim>\<open>active_mask_for_this_step\<close> returns the mask and, in the A/B mode (also the
  \<^verbatim>\<open>default:\<close> of the switch), flips \<^verbatim>\<open>s_group_toggle\<close>.
\<close>

definition active_mask_for_this_step :: "ctrl_state \<Rightarrow> u8 \<times> ctrl_state" where
  "active_mask_for_this_step s =
     (if group_mode (s_cfg s) = PWM_CTRL_GROUP_MODE_ALL then (PWM_CH_MASK_ALL, s)
      else if s_group_toggle s = 0 then (groupA_mask (s_cfg s), s\<lparr>s_group_toggle := 1\<rparr>)
      else (groupB_mask (s_cfg s), s\<lparr>s_group_toggle := 0\<rparr>))"

definition clamp_pct :: "pwm_ctrl_config \<Rightarrow> real \<Rightarrow> real" where
  "clamp_pct cfg pct =
     (let minp = (if min_pct cfg > 0 then min_pct cfg else PWM_HOST_PCT_MIN);
          maxp = (if max_pct cfg > 0 then max_pct cfg else PWM_HOST_PCT_MAX);
          p1 = (if pct < minp then minp else pct)
      in if p1 > maxp then maxp else p1)"

definition init_state_to_mid :: "ctrl_state \<Rightarrow> ctrl_state" where
  "init_state_to_mid s =
     (let mid = (if mid_pct (s_cfg s) > 0 then mid_pct (s_cfg s) else PWM_HOST_PCT_MID)
      in s\<lparr>s_current_pct := replicate 8 mid, s_target_pct := replicate 8 mid,
           s_step_count := 0, s_group_toggle := 0\<rparr>)"

text \<open>
  \<^verbatim>\<open>pwm_ctrl_init(cfg)\<close>: \<open>None\<close> is the \<^verbatim>\<open>NULL\<close> pointer; \<open>rc\<close> is what
  \<^verbatim>\<open>pwm_host_set_all_pct\<close> returns for the initial all-mid frame. \<open>init_config\<close> is the
  configuration the function leaves in \<^verbatim>\<open>s_cfg\<close>, field by field: the copy of \<open>*cfg\<close> (or
  zeros), the defaults for values that are not positive, the default range when
  \<open>min < mid < max\<close> fails, the normalised protection flag, the default groups and mode.
\<close>

definition zero_config :: pwm_ctrl_config where
  "zero_config =
     \<lparr> ctrl_hz = 0, max_step_pct = 0, min_pct = 0, mid_pct = 0, max_pct = 0,
       enable_reverse_protection = 0, groupA_mask = 0, groupB_mask = 0, group_mode = 0 \<rparr>"

definition init_config :: "pwm_ctrl_config option \<Rightarrow> pwm_ctrl_config" where
  "init_config cfg =
     (let c0 = (case cfg of None \<Rightarrow> zero_config | Some c \<Rightarrow> c);
          hz = (if ctrl_hz c0 \<le> 0 then 50 else ctrl_hz c0);
          ms = (if max_step_pct c0 \<le> 0 then f32_round 0.2 else max_step_pct c0);
          mn = (if min_pct c0 \<le> 0 then PWM_HOST_PCT_MIN else min_pct c0);
          md = (if mid_pct c0 \<le> 0 then PWM_HOST_PCT_MID else mid_pct c0);
          mx = (if max_pct c0 \<le> 0 then PWM_HOST_PCT_MAX else max_pct c0);
          ordered = (mn < md \<and> md < mx);
          rp = (case cfg of
                  None \<Rightarrow> 1
                | Some c \<Rightarrow> if enable_reverse_protection c \<noteq> 0 then 1 else 0);
          no_groups = (groupA_mask c0 = 0 \<and> groupB_mask c0 = 0);
          gm = group_mode c0
      in \<lparr> ctrl_hz = hz, max_step_pct = ms,
           min_pct = (if \<not> ordered then PWM_HOST_PCT_MIN else mn),
           mid_pct = (if \<not> ordered then PWM_HOST_PCT_MID else md),
           max_pct = (if \<not> ordered then PWM_HOST_PCT_MAX else mx),
           enable_reverse_protection = rp,
           groupA_mask = (if no_groups then PWM_CH_MASK_1_4 else groupA_mask c0),
           groupB_mask = (if no_groups then PWM_CH_MASK_5_8 else groupB_mask c0),
           group_mode =
             (if gm \<noteq> PWM_CTRL_GROUP_MODE_ALL \<and> gm \<noteq> PWM_CTRL_GROUP_MODE_AB_ALTERNATE
              then PWM_CTRL_GROUP_MODE_AB_ALTERNATE else gm) \<rparr>)"

definition pwm_ctrl_init ::
  "pwm_ctrl_config option \<Rightarrow> pwmh_result \<Rightarrow> ctrl_state \<Rightarrow> int \<times> ctrl_state" where
  "pwm_ctrl_init cfg rc s =
     (let s1 = init_state_to_mid (s\<lparr>s_cfg := init_config cfg\<rparr>)
      in if rc \<noteq> PWMH_OK then (PWM_CTRL_ERR_INTERNAL, s1)
         else (PWM_CTRL_OK, s1\<lparr>s_inited := 1\<rparr>))"

text \<open>The state before the first \<^verbatim>\<open>pwm_ctrl_init\<close>: zero-initialised statics.\<close>

definition ctrl_boot :: ctrl_state where
  "ctrl_boot =
     \<lparr> s_inited = 0, s_cfg = zero_config, s_current_pct = replicate 8 0,
       s_target_pct = replicate 8 0, s_step_count = 0, s_group_toggle = 0 \<rparr>"

definition pwm_ctrl_set_target_pct :: "int \<Rightarrow> real \<Rightarrow> ctrl_state \<Rightarrow> int \<times> ctrl_state" where
  "pwm_ctrl_set_target_pct ch pct s =
     (if s_inited s = 0 then (PWM_CTRL_ERR_NOT_INIT, s)
      else if ch < 1 \<or> ch > 8 then (PWM_CTRL_ERR_INVALID_ARG, s)
      else
        let p = (if pct < 0 then mid_pct (s_cfg s) else pct)
        in (PWM_CTRL_OK,
            s\<lparr>s_target_pct := (s_target_pct s)[nat (ch - 1) := clamp_pct (s_cfg s) p]\<rparr>))"

definition pwm_ctrl_set_targets_mask ::
  "u8 \<Rightarrow> real list option \<Rightarrow> ctrl_state \<Rightarrow> int \<times> ctrl_state" where
  "pwm_ctrl_set_targets_mask msk pct s =
     (if s_inited s = 0 then (PWM_CTRL_ERR_NOT_INIT, s)
      else case pct of
        None \<Rightarrow> (PWM_CTRL_ERR_INVALID_ARG, s)
      | Some pcts \<Rightarrow>
          (PWM_CTRL_OK,
           s\<lparr>s_target_pct :=
                map (\<lambda>i. if \<not> ch_in_mask (int i + 1) msk then s_target_pct s ! i
                          else let p = pcts ! i;
                                   p1 = (if p < 0 then mid_pct (s_cfg s) else p)
                               in clamp_pct (s_cfg s) p1) [0..<8]\<rparr>))"

definition pwm_ctrl_set_all_target_mid :: "ctrl_state \<Rightarrow> int \<times> ctrl_state" where
  "pwm_ctrl_set_all_target_mid s =
     (if s_inited s = 0 then (PWM_CTRL_ERR_NOT_INIT, s)
      else (PWM_CTRL_OK, s\<lparr>s_target_pct := replicate 8 (mid_pct (s_cfg s))\<rparr>))"

text \<open>
  One iteration of the channel loop of \<^verbatim>\<open>pwm_ctrl_step\<close>, for channel index \<open>i\<close> (channel
  number \<open>i + 1\<close>): \<open>eff_target\<close> is the reverse-protection block, \<open>limit_delta\<close> the
  slew limit, \<open>step_channel\<close> the next value of the channel. \<open>REV_EPS\<close> is the literal
  \<^verbatim>\<open>1e-6f\<close> of the side test; the bounds \<^verbatim>\<open>mid + 1e-6f\<close> and \<^verbatim>\<open>mid - 1e-6f\<close>, the
  difference \<^verbatim>\<open>eff_target - cur\<close> and the sum \<^verbatim>\<open>cur + delta\<close> are single-precision
  operations.
\<close>

definition REV_EPS :: real where
  "REV_EPS = f32_round (1 / 1000000)"

definition eff_target :: "pwm_ctrl_config \<Rightarrow> real \<Rightarrow> real \<Rightarrow> real" where
  "eff_target cfg cur tgt =
     (let mid = mid_pct cfg in
      if enable_reverse_protection cfg \<noteq> 0 then
        (let cur_above_mid = (cur > f32_add mid REV_EPS);
             cur_below_mid = (cur < f32_sub mid REV_EPS);
             tgt_above_mid = (tgt > f32_add mid REV_EPS);
             tgt_below_mid = (tgt < f32_sub mid REV_EPS)
         in if (cur_above_mid \<and> tgt_below_mid) \<or> (cur_below_mid \<and> tgt_above_mid)
            then mid else tgt)
      else tgt)"

definition limit_delta :: "real \<Rightarrow> real \<Rightarrow> real" where
  "limit_delta max_step delta =
     (if \<bar>delta\<bar> > max_step then (if delta > 0 then max_step else - max_step) else delta)"

definition step_channel :: "pwm_ctrl_config \<Rightarrow> u8 \<Rightarrow> real \<Rightarrow> nat \<Rightarrow> real \<Rightarrow> real \<Rightarrow> real" where
  "step_channel cfg msk max_step i cur tgt =
     (let delta = f32_sub (eff_target cfg cur tgt) cur
      in if \<not> ch_in_mask (int i + 1) msk then cur
         else
           let np = f32_add cur (limit_delta max_step delta)
           in clamp_pct cfg np)"

text \<open>
  \<^verbatim>\<open>pwm_ctrl_step\<close>. \<open>rc\<close> is what \<^verbatim>\<open>pwm_host_set_all_pct(next_pct)\<close> returns on this call.
  \<open>step_next_pct\<close> is the vector \<^verbatim>\<open>next_pct\<close> handed to it, computed after the mask has
  been taken.
\<close>

definition step_next_pct :: "u8 \<Rightarrow> ctrl_state \<Rightarrow> real list" where
  "step_next_pct msk s =
     map (\<lambda>i. step_channel (s_cfg s) msk (max_step_pct_effective s) i
                 (s_current_pct s ! i) (s_target_pct s ! i)) [0..<8]"

definition pwm_ctrl_step :: "pwmh_result \<Rightarrow> ctrl_state \<Rightarrow> int \<times> ctrl_state" where
  "pwm_ctrl_step rc s =
     (if s_inited s = 0 then (PWM_CTRL_ERR_NOT_INIT, s)
      else
        let (msk, s1) = active_mask_for_this_step s;
            next_pct = step_next_pct msk s1
        in if rc \<noteq> PWMH_OK then (PWM_CTRL_ERR_INTERNAL, s1)
           else (PWM_CTRL_OK,
                 s1\<lparr>s_current_pct := next_pct, s_step_count := s_step_count s1 + 1\<rparr>))"

text \<open>
  A run of \<^verbatim>\<open>pwm_ctrl_step\<close> calls by the caller, one per element of \<open>rcs\<close>, the results
  of the emits in order.
\<close>

fun pwm_ctrl_steps :: "pwmh_result list \<Rightarrow> ctrl_state \<Rightarrow> ctrl_state" where
  "pwm_ctrl_steps [] s = s"
| "pwm_ctrl_steps (rc # rcs) s = pwm_ctrl_steps rcs (snd (pwm_ctrl_step rc s))"

text \<open>
  Configurations used as concrete input below: the default range 5 / 7.5 / 10 with
  reverse protection on and the default groups, the step and the group mode being chosen;
  and the same with the range 8 / 16 / 24.
\<close>

definition example_cfg :: "real \<Rightarrow> int \<Rightarrow> pwm_ctrl_config" where
  "example_cfg ms mode =
     \<lparr> ctrl_hz = 50, max_step_pct = ms, min_pct = 5, mid_pct = 7.5, max_pct = 10,
       enable_reverse_protection = 1, groupA_mask = 0x0F, groupB_mask = 0xF0,
       group_mode = mode \<rparr>"

definition wide_cfg :: "real \<Rightarrow> int \<Rightarrow> pwm_ctrl_config" where
  "wide_cfg ms mode =
     \<lparr> ctrl_hz = 50, max_step_pct = ms, min_pct = 8, mid_pct = 16, max_pct = 24,
       enable_reverse_protection = 1, groupA_mask = 0x0F, groupB_mask = 0xF0,
       group_mode = mode \<rparr>"

text \<open>An initialised shaper with the given configuration, current and target values.\<close>

definition ctrl_at :: "pwm_ctrl_config \<Rightarrow> real list \<Rightarrow> real list \<Rightarrow> u64 \<Rightarrow> int \<Rightarrow> ctrl_state" where
  "ctrl_at cfg cur tgt n tog =
     \<lparr> s_inited = 1, s_cfg = cfg, s_current_pct = cur, s_target_pct = tgt,
       s_step_count = n, s_group_toggle = tog \<rparr>"

section \<open>Verified properties\<close>

subsection \<open>Single-precision rounding\<close>


lemma rhe_int: "round_half_even (of_int k) = k"
  by (simp add: round_half_even_def)

lemma rhe_ge: "of_int k \<le> x \<Longrightarrow> k \<le> round_half_even x"
  unfolding round_half_even_def Let_def by (simp add: le_floor_iff; linarith)

lemma rhe_le: "x \<le> of_int k \<Longrightarrow> round_half_even x \<le> k"
  unfolding round_half_even_def Let_def by (simp; linarith)

lemma rhe_minus: "round_half_even (- x) = - round_half_even x"
proof (cases "x \<in> \<int>")
  case True
  then obtain k where "x = of_int k"
    by (auto elim: Ints_cases)
  then show ?thesis
    using rhe_int [of k] rhe_int [of "- k"] by simp
next
  case False
  then have "x \<noteq> of_int \<lfloor>x\<rfloor>"
    by (metis Ints_of_int)
  then have "\<lceil>x\<rceil> = \<lfloor>x\<rfloor> + 1"
    by (simp add: ceiling_altdef)
  then have fl: "\<lfloor>- x\<rfloor> = - \<lfloor>x\<rfloor> - 1"
    by (simp add: ceiling_def)
  show ?thesis
    unfolding round_half_even_def Let_def fl by (auto; linarith?)
qed

lemma f32_shift_le_iff: "f32_shift x \<le> s \<longleftrightarrow> \<bar>x\<bar> * 2 ^ 149 < 2 ^ (s + 24)"
proof -
  have "f32_shift x \<le> s \<longleftrightarrow> bitlen \<lfloor>\<bar>x\<bar> * 2 ^ 149\<rfloor> \<le> int s + 24"
    by (simp add: f32_shift_def) linarith
  also have "\<dots> \<longleftrightarrow> \<lfloor>\<bar>x\<bar> * 2 ^ 149\<rfloor> < 2 ^ (s + 24)"
    by (simp add: bitlen_le_iff_power nat_add_distrib)
  also have "\<dots> \<longleftrightarrow> \<bar>x\<bar> * 2 ^ 149 < 2 ^ (s + 24)"
    by (simp add: floor_less_iff)
  finally show ?thesis .
qed

lemma f32_shift_upper: "\<bar>x\<bar> * 2 ^ 149 < 2 ^ (f32_shift x + 24)"
  using f32_shift_le_iff [of x "f32_shift x"] by simp

lemma f32_shift_lower:
  assumes "0 < f32_shift x"
  shows "2 ^ (f32_shift x + 23) \<le> \<bar>x\<bar> * 2 ^ 149"
proof -
  from assms obtain n where n: "f32_shift x = Suc n"
    using gr0_implies_Suc by blast
  then have "\<not> f32_shift x \<le> n"
    by simp
  then have "2 ^ (n + 24) \<le> \<bar>x\<bar> * 2 ^ 149"
    by (simp only: f32_shift_le_iff not_less)
  then show ?thesis
    by (simp add: n ac_simps)
qed

lemma f32_shift_mono: "\<bar>x\<bar> \<le> \<bar>y\<bar> \<Longrightarrow> f32_shift x \<le> f32_shift y"
  using f32_shift_upper [of y] by (simp add: f32_shift_le_iff)

lemma f32_shift_minus: "f32_shift (- x) = f32_shift x"
  by (simp add: f32_shift_def)

lemma f32_quantum_pos: "0 < f32_quantum x"
  by (simp add: f32_quantum_def)

lemma f32_quantum_minus: "f32_quantum (- x) = f32_quantum x"
  by (simp add: f32_quantum_def f32_shift_minus)

lemma f32_round_minus: "f32_round (- x) = - f32_round x"
  by (simp add: f32_round_def f32_quantum_minus rhe_minus)

lemma f32_quantum_upper: "\<bar>x\<bar> < 2 ^ 24 * f32_quantum x"
  using f32_shift_upper [of x] by (simp add: f32_quantum_def power_add field_simps)

lemma f32_quantum_lower: "0 < f32_shift x \<Longrightarrow> 2 ^ 23 * f32_quantum x \<le> \<bar>x\<bar>"
  using f32_shift_lower [of x] by (simp add: f32_quantum_def power_add field_simps)




text \<open>Multiples of a power of two with a significand of at most 24 bits are representable.\<close>

lemma f32_round_multiple:
  assumes "x = real_of_int k * 2 ^ s / 2 ^ 149" and "\<bar>k\<bar> < 2 ^ 24"
  shows "f32_round x = x"
proof -
  have "\<bar>x\<bar> * 2 ^ 149 = real_of_int \<bar>k\<bar> * 2 ^ s"
    by (simp add: assms(1) abs_mult)
  also have "\<dots> < 2 ^ 24 * 2 ^ s"
    using assms(2) by (intro mult_strict_right_mono) (simp_all flip: of_int_less_iff)
  finally have "f32_shift x \<le> s"
    by (simp add: f32_shift_le_iff power_add mult.commute)
  define sx where "sx = f32_shift x"
  with \<open>f32_shift x \<le> s\<close> obtain d where s: "s = sx + d"
    using le_Suc_ex by blast
  have q: "f32_quantum x = 2 ^ sx / 2 ^ 149"
    by (simp add: f32_quantum_def sx_def)
  from assms(1) have x: "x = real_of_int k * 2 ^ (sx + d) / 2 ^ 149"
    by (simp only: s)
  have "x / f32_quantum x = real_of_int (k * 2 ^ d)"
    unfolding q by (subst x) (simp add: power_add)
  moreover have "real_of_int (k * 2 ^ d) * f32_quantum x = x"
    unfolding q by (subst x) (simp add: power_add)
  ultimately show ?thesis
    by (simp only: f32_round_def rhe_int)
qed

lemma f32_round_multiple_le:
  assumes "x = real_of_int k * 2 ^ s / 2 ^ 149" and "\<bar>k\<bar> \<le> 2 ^ 24"
  shows "f32_round x = x"
proof (cases "\<bar>k\<bar> = 2 ^ 24")
  case True
  then have "k = 2 ^ 24 \<or> k = - (2 ^ 24)"
    by linarith
  then have "x = real_of_int (k div 2) * 2 ^ Suc s / 2 ^ 149" "\<bar>k div 2\<bar> < 2 ^ 24"
    by (auto simp: assms(1))
  then show ?thesis
    by (rule f32_round_multiple)
next
  case False
  with assms show ?thesis
    by (intro f32_round_multiple [of x k s]) simp_all
qed

lemma f32_round_form:
  "f32_round x = real_of_int (round_half_even (x / f32_quantum x)) * 2 ^ f32_shift x / 2 ^ 149"
  by (simp add: f32_round_def f32_quantum_def)

lemma f32_round_idem: "f32_round (f32_round x) = f32_round x"
proof -
  let ?n = "round_half_even (x / f32_quantum x)"
  have q: "0 < f32_quantum x"
    by (rule f32_quantum_pos)
  have "x / f32_quantum x \<le> real_of_int (2 ^ 24)"
    "real_of_int (- (2 ^ 24)) \<le> x / f32_quantum x"
    using f32_quantum_upper [of x] q by (simp_all add: field_simps abs_less_iff)
  then have "?n \<le> 2 ^ 24" "- (2 ^ 24) \<le> ?n"
    by (simp_all only: rhe_le rhe_ge)
  then have "\<bar>?n\<bar> \<le> 2 ^ 24"
    by simp
  with f32_round_form [of x] show ?thesis
    by (rule f32_round_multiple_le)
qed

lemma is_f32_round: "is_f32 (f32_round x)"
  by (simp add: is_f32_def f32_round_idem)

lemma is_f32_minus: "is_f32 (- x) \<longleftrightarrow> is_f32 x"
  by (auto simp: is_f32_def f32_round_minus)

lemma is_f32_multiple:
  assumes "is_f32 x" and "f32_shift y \<le> f32_shift x"
  shows "\<exists>k. x = real_of_int k * f32_quantum y"
proof -
  from assms(2) obtain d where d: "f32_shift x = f32_shift y + d"
    using le_Suc_ex by blast
  from assms(1) have "x = real_of_int (round_half_even (x / f32_quantum x)) * f32_quantum x"
    by (simp add: is_f32_def f32_round_def)
  also have "\<dots> = real_of_int (round_half_even (x / f32_quantum x) * 2 ^ d) * f32_quantum y"
    by (simp add: f32_quantum_def d power_add)
  finally show ?thesis
    by blast
qed

text \<open>Rounding does not cross a representable number.\<close>

lemma f32_round_ge:
  assumes "is_f32 m" and "m \<le> x"
  shows "m \<le> f32_round x"
proof -
  let ?q = "f32_quantum x"
  have q: "0 < ?q"
    by (rule f32_quantum_pos)
  have via: "m \<le> f32_round x" if "m = real_of_int k * ?q" for k
  proof -
    have "real_of_int k \<le> x / ?q"
      using assms(2) q by (simp add: that field_simps)
    then have "k \<le> round_half_even (x / ?q)"
      by (rule rhe_ge)
    then have "real_of_int k * ?q \<le> real_of_int (round_half_even (x / ?q)) * ?q"
      using q by (intro mult_right_mono) simp_all
    then show ?thesis
      by (simp add: that f32_round_def)
  qed
  show ?thesis
  proof (cases "f32_shift x \<le> f32_shift m")
    case True
    from is_f32_multiple [OF assms(1) this] via show ?thesis
      by blast
  next
    case False
    then have lt: "f32_shift m < f32_shift x"
      by simp
    then have "\<not> \<bar>x\<bar> \<le> \<bar>m\<bar>"
      using f32_shift_mono [of x m] by auto
    with assms(2) have xpos: "0 < x" "\<bar>x\<bar> = x"
      by linarith+
    from lt have "2 ^ 23 * ?q \<le> x"
      using f32_quantum_lower [of x] xpos by simp
    then have "real_of_int (2 ^ 23) \<le> x / ?q"
      using q by (simp add: field_simps)
    then have "2 ^ 23 \<le> round_half_even (x / ?q)"
      by (rule rhe_ge)
    then have "real_of_int (2 ^ 23) * ?q \<le> real_of_int (round_half_even (x / ?q)) * ?q"
      using q by (intro mult_right_mono) simp_all
    then have big: "2 ^ 23 * ?q \<le> f32_round x"
      by (simp add: f32_round_def)
    from lt have "Suc (f32_shift m) \<le> f32_shift x"
      by simp
    then have "(2 :: real) ^ Suc (f32_shift m) \<le> 2 ^ f32_shift x"
      by (intro power_increasing) simp_all
    then have "2 * f32_quantum m \<le> ?q"
      by (simp add: f32_quantum_def field_simps)
    with f32_quantum_upper [of m] have "\<bar>m\<bar> < 2 ^ 23 * ?q"
      by simp
    with big show ?thesis
      by simp
  qed
qed

lemma f32_round_le:
  assumes "is_f32 m" and "x \<le> m"
  shows "f32_round x \<le> m"
  using f32_round_ge [of "- m" "- x"] assms by (simp add: is_f32_minus f32_round_minus)

text \<open>A difference that is no larger than the smaller operand is exact.\<close>

lemma f32_sub_exact:
  assumes "is_f32 a" and "is_f32 b" and "\<bar>b\<bar> \<le> \<bar>a\<bar>" and "\<bar>a - b\<bar> \<le> \<bar>b\<bar>"
  shows "f32_round (a - b) = a - b"
proof -
  have sa: "f32_shift b \<le> f32_shift a"
    using assms(3) by (rule f32_shift_mono)
  from is_f32_multiple [OF assms(1) sa] obtain ka where ka: "a = real_of_int ka * f32_quantum b"
    by blast
  from is_f32_multiple [OF assms(2) order_refl] obtain kb where
    kb: "b = real_of_int kb * f32_quantum b"
    by blast
  have q: "0 < f32_quantum b"
    by (rule f32_quantum_pos)
  have eq: "a - b = real_of_int (ka - kb) * 2 ^ f32_shift b / 2 ^ 149"
    using ka kb by (simp add: f32_quantum_def left_diff_distrib)
  have "a - b = real_of_int (ka - kb) * f32_quantum b"
    by (simp add: eq f32_quantum_def)
  then have "\<bar>real_of_int (ka - kb)\<bar> * f32_quantum b = \<bar>a - b\<bar>"
    using q by (simp add: abs_mult)
  also have "\<dots> < 2 ^ 24 * f32_quantum b"
    using assms(4) f32_quantum_upper [of b] by simp
  finally have "\<bar>real_of_int (ka - kb)\<bar> < 2 ^ 24"
    using q by simp
  then have "real_of_int \<bar>ka - kb\<bar> < real_of_int (2 ^ 24)"
    by simp
  then have "\<bar>ka - kb\<bar> < 2 ^ 24"
    by (simp only: of_int_less_iff)
  with eq show ?thesis
    by (rule f32_round_multiple)
qed

lemma is_f32_0: "is_f32 0"
  by (simp add: is_f32_def f32_round_def round_half_even_def)

text \<open>
  Evaluation of \<open>f32_round\<close> at a numeral: the rules apply to numerals and their
  quotients only, and \<open>bitlen\<close> of a numeral is computed in steps of 64, 16, 4 and 1 bits.
\<close>

lemma bitlen_div_pow2: "2 ^ k \<le> x \<Longrightarrow> bitlen x = bitlen (x div 2 ^ k) + int k"
proof (induction k arbitrary: x)
  case 0
  then show ?case
    by simp
next
  case (Suc k)
  then have "0 < x" "2 ^ k \<le> x div 2"
    by (simp_all add: zdiv_mono1 [of "2 * 2 ^ k" x 2, simplified]
        order_less_le_trans [of 0 "2 * 2 ^ k"])
  then have "bitlen (x div 2) = bitlen (x div 2 div 2 ^ k) + int k"
    by (intro Suc.IH)
  with \<open>0 < x\<close> show ?case
    by (subst compute_bitlen) (simp add: zdiv_zmult2_eq)
qed

lemma bitlen_numeral:
  "bitlen (numeral n) =
     (if (2 :: int) ^ 64 \<le> numeral n then bitlen (numeral n div 2 ^ 64) + 64
      else if (2 :: int) ^ 16 \<le> numeral n then bitlen (numeral n div 2 ^ 16) + 16
      else if (2 :: int) ^ 4 \<le> numeral n then bitlen (numeral n div 2 ^ 4) + 4
      else bitlen (numeral n div 2) + 1)"
  "bitlen 1 = 1"
  using bitlen_div_pow2 [of 64 "numeral n"] bitlen_div_pow2 [of 16 "numeral n"]
    bitlen_div_pow2 [of 4 "numeral n"] compute_bitlen [of "numeral n"] compute_bitlen [of 1]
  by simp_all

lemma f32_round_numeral:
  "f32_round (numeral n) =
     (let q = f32_quantum (numeral n)
      in real_of_int (round_half_even (numeral n / q)) * q)"
  "f32_round (numeral a / numeral b) =
     (let q = f32_quantum (numeral a / numeral b)
      in real_of_int (round_half_even (numeral a / numeral b / q)) * q)"
  "f32_round (1 / numeral b) =
     (let q = f32_quantum (1 / numeral b)
      in real_of_int (round_half_even (1 / numeral b / q)) * q)"
  by (simp_all only: f32_round_def Let_def)

lemma f32_round_0_1: "f32_round 0 = 0" "f32_round 1 = 1"
  by (simp_all add: f32_round_def f32_quantum_def f32_shift_def bitlen_numeral
      round_half_even_def)

lemmas f32_eval =
  f32_add_def f32_sub_def f32_mul_def f32_div_def f32_of_int_def
  f32_round_numeral f32_round_0_1 f32_round_minus f32_quantum_def f32_shift_def
  bitlen_numeral round_half_even_def Let_def

lemma REV_EPS_value: "REV_EPS = 8796093 / 8796093022208"
  by (simp add: REV_EPS_def f32_eval cong: let_weak_cong)

lemma REV_EPS_nonneg: "0 \<le> REV_EPS"
  by (simp add: REV_EPS_value)

lemma f32_literals:
  "f32_round 0.2 = 13421773 / 67108864"
  "f32_round 0.3 = 5033165 / 16777216"
  "f32_round 2.4999995 = 5242879 / 2097152"
  by (simp_all add: f32_eval cong: let_weak_cong)

subsection \<open>Bytes and words\<close>

lemma low_byte16: "(v :: u16) AND 0xFF = take_bit 8 v"
proof -
  have "(0xFF :: u16) = mask 8"
    by (simp add: mask_eq_exp_minus_1)
  then show ?thesis
    by (simp add: take_bit_eq_mask)
qed

lemma low_byte32: "(v :: u32) AND 0xFF = take_bit 8 v"
proof -
  have "(0xFF :: u32) = mask 8"
    by (simp add: mask_eq_exp_minus_1)
  then show ?thesis
    by (simp add: take_bit_eq_mask)
qed

lemma be16_join:
  "push_bit 8 (ucast (ucast (drop_bit 8 v) :: u8) :: u16) OR ucast (ucast (take_bit 8 v) :: u8) = v"
  by (rule bit_word_eqI) (auto simp: bit_simps)

lemma be32_join:
  "push_bit 24 (ucast (ucast (drop_bit 24 v) :: u8) :: u32) OR
   push_bit 16 (ucast (ucast (drop_bit 16 v) :: u8)) OR
   push_bit 8 (ucast (ucast (drop_bit 8 v) :: u8)) OR
   ucast (ucast (take_bit 8 v) :: u8) = v" (is "?w = v")
proof (rule bit_word_eqI)
  fix n :: nat
  assume "n < LENGTH(32)"
  then consider "n < 8" | "8 \<le> n" "n < 16" | "16 \<le> n" "n < 24" | "24 \<le> n" "n < 32"
    by fastforce
  then show "bit ?w n = bit v n"
    by cases (auto simp: bit_simps)
qed

lemma be16_read_write: "be16_read (be16_write v) 0 = v"
  by (simp add: be16_read_def be16_write_def low_byte16 be16_join)

lemma be32_read_write: "be32_read (be32_write v) 0 = v"
  by (simp add: be32_read_def be32_write_def low_byte32 be32_join)

lemma be16_read_shift: "be16_read (pre @ b) (length pre + off) = be16_read b off"
  by (simp add: be16_read_def nth_append)

lemma be32_read_shift: "be32_read (pre @ b) (length pre + off) = be32_read b off"
  by (simp add: be32_read_def nth_append)

lemma be16_write_length: "length (be16_write v) = 2"
  by (simp add: be16_write_def)

lemma be32_write_length: "length (be32_write v) = 4"
  by (simp add: be32_write_def)

lemma pack_be32_write_eq: "pack_be32_write v = be32_write v"
proof -
  have "(ucast (take_bit 8 v) :: u8) = ucast v"
    by (rule bit_word_eqI) (auto simp: bit_simps)
  then show ?thesis
    by (simp add: pack_be32_write_def be32_write_def low_byte32)
qed

lemma pack_crc16_ccitt_eq: "pack_crc16_ccitt data = crc16_ccitt data"
proof -
  have "(\<lambda>crc b. (crc16_round ^^ 8) (crc XOR push_bit 8 (ucast b))) = crc16_byte"
    by (intro ext) (simp add: crc16_byte_def)
  then show ?thesis
    by (simp add: pack_crc16_ccitt_def crc16_ccitt_def crc16_update_def)
qed

subsection \<open>The parser on a buffer that does or does not start with a valid frame\<close>

lemma sof_scan_ge: "pos \<le> sof_scan buf pos"
proof (induction buf pos rule: sof_scan.induct)
  case (1 buf pos)
  show ?case
    using 1 by (subst sof_scan.simps) auto
qed

lemma sof_scan_zero_iff:
  "2 \<le> length buf \<Longrightarrow> sof_scan buf 0 = 0 \<longleftrightarrow> buf ! 0 = 0xAA \<and> buf ! 1 = 0x55"
  using sof_scan_ge [of 1 buf]
  by (subst sof_scan.simps) auto

lemma sof_scan_short: "length buf \<le> 1 \<Longrightarrow> sof_scan buf 0 = 0"
  by (subst sof_scan.simps) simp

lemma try_parse_frame_at:
  assumes "frame_at (rxbuf s)"
  shows "try_parse_one_frame now s =
    (True, 14 + unat (be16_read (rxbuf s) 10),
     dispatch_frame now (rxbuf s ! 3) (be16_read (rxbuf s) 4) (be32_read (rxbuf s) 6)
       (be16_read (rxbuf s) 10) (take (unat (be16_read (rxbuf s) 10)) (drop 12 (rxbuf s))) s)"
proof -
  from assms have len: "14 \<le> length (rxbuf s)"
    by (simp add: frame_at_def)
  then have ne: "rxbuf s \<noteq> []"
    by auto
  from assms len have "sof_scan (rxbuf s) 0 = 0"
    by (simp add: sof_scan_zero_iff frame_at_def)
  with assms len ne show ?thesis
    by (simp add: try_parse_one_frame_def frame_at_def Let_def MIN_FRAME_LEN_def)
qed

lemma dispatch_frame_timeout:
  "failsafe_timeout_ms (dispatch_frame t msg seq ticks len payload s) = failsafe_timeout_ms s"
  by (simp add: dispatch_frame_def handle_msg_pwm_def handle_msg_hb_def Let_def)

lemma dispatch_frame_last_ok:
  "last_ok_rx_ms (dispatch_frame t msg seq ticks len payload s) =
     (if msg = MSG_PWM \<or> msg = MSG_HB then t else last_ok_rx_ms s)"
  by (simp add: dispatch_frame_def handle_msg_pwm_def handle_msg_hb_def Let_def)

lemma dispatch_frame_dispatched:
  "dispatched (dispatch_frame now msg seq ticks len payload s) =
     dispatched s @ [Frame msg seq ticks payload]"
  by (simp add: dispatch_frame_def Let_def handle_msg_pwm_def handle_msg_hb_def)

subsection \<open>Frames built field by field are valid, and read back as built\<close>

lemma v1_body_length: "length (v1_body msg seq ticks payload) = 10 + length payload"
  by (simp add: v1_body_def be16_write_def be32_write_def)

lemma v1_frame_length: "length (v1_frame msg seq ticks payload) = 14 + length payload"
  by (simp add: v1_frame_def v1_body_length be16_write_def)

lemma be16_read_at:
  "length pre = off \<Longrightarrow> be16_read (pre @ be16_write v @ rest) off = v"
  using be16_read_shift [of pre "be16_write v @ rest" 0]
  by (simp add: be16_read_def be16_write_def low_byte16 be16_join)

lemma be32_read_at:
  "length pre = off \<Longrightarrow> be32_read (pre @ be32_write v @ rest) off = v"
  using be32_read_shift [of pre "be32_write v @ rest" 0]
  by (simp add: be32_read_def be32_write_def low_byte32 be32_join)

lemma v1_frame_fields:
  fixes msg :: u8 and seq :: u16 and ticks :: u32 and payload :: "u8 list" and rest :: "u8 list"
  defines "f \<equiv> v1_frame msg seq ticks payload"
  shows "f ! 0 = 0xAA" and "f ! 1 = 0x55" and "f ! 2 = PROTO_VER_1" and "f ! 3 = msg"
    and "be16_read (f @ rest) 4 = seq" and "be32_read (f @ rest) 6 = ticks"
    and "be16_read (f @ rest) 10 = of_nat (length payload)"
    and "drop 12 (f @ rest) =
           payload @ be16_write (crc16_ccitt (v1_body msg seq ticks payload)) @ rest"
    and "take (10 + length payload) (drop 2 (f @ rest)) = v1_body msg seq ticks payload"
    and "be16_read (f @ rest) (12 + length payload) = crc16_ccitt (v1_body msg seq ticks payload)"
proof -
  show "f ! 0 = 0xAA" "f ! 1 = 0x55" "f ! 2 = PROTO_VER_1" "f ! 3 = msg"
    by (simp_all add: f_def v1_frame_def v1_body_def)
  have "f @ rest = [0xAA, 0x55, PROTO_VER_1, msg] @ be16_write seq @
      (be32_write ticks @ be16_write (of_nat (length payload)) @ payload @
       be16_write (crc16_ccitt (v1_body msg seq ticks payload)) @ rest)"
    by (simp add: f_def v1_frame_def v1_body_def)
  then show "be16_read (f @ rest) 4 = seq"
    using be16_read_at [of "[0xAA, 0x55, PROTO_VER_1, msg]" 4 seq]
    by simp
  have "f @ rest = ([0xAA, 0x55, PROTO_VER_1, msg] @ be16_write seq) @ be32_write ticks @
      (be16_write (of_nat (length payload)) @ payload @
       be16_write (crc16_ccitt (v1_body msg seq ticks payload)) @ rest)"
    by (simp add: f_def v1_frame_def v1_body_def)
  then show "be32_read (f @ rest) 6 = ticks"
    using be32_read_at [of "[0xAA, 0x55, PROTO_VER_1, msg] @ be16_write seq" 6 ticks]
    by (simp add: be16_write_length)
  have "f @ rest = ([0xAA, 0x55, PROTO_VER_1, msg] @ be16_write seq @ be32_write ticks) @
      be16_write (of_nat (length payload)) @
      (payload @ be16_write (crc16_ccitt (v1_body msg seq ticks payload)) @ rest)"
    by (simp add: f_def v1_frame_def v1_body_def)
  then show "be16_read (f @ rest) 10 = of_nat (length payload)"
    using be16_read_at [of "[0xAA, 0x55, PROTO_VER_1, msg] @ be16_write seq @ be32_write ticks" 10]
    by (simp add: be16_write_length be32_write_length)
  show "drop 12 (f @ rest) =
      payload @ be16_write (crc16_ccitt (v1_body msg seq ticks payload)) @ rest"
    by (simp add: f_def v1_frame_def v1_body_def be16_write_def be32_write_def)
  have "drop 2 (f @ rest) = v1_body msg seq ticks payload @
      be16_write (crc16_ccitt (v1_body msg seq ticks payload)) @ rest"
    by (simp add: f_def v1_frame_def)
  then show "take (10 + length payload) (drop 2 (f @ rest)) = v1_body msg seq ticks payload"
    by (simp add: v1_body_length)
  have "f @ rest = ([0xAA, 0x55] @ v1_body msg seq ticks payload) @
      be16_write (crc16_ccitt (v1_body msg seq ticks payload)) @ rest"
    by (simp add: f_def v1_frame_def)
  then show "be16_read (f @ rest) (12 + length payload) =
      crc16_ccitt (v1_body msg seq ticks payload)"
    using be16_read_at [of "[0xAA, 0x55] @ v1_body msg seq ticks payload" "12 + length payload"]
    by (simp add: v1_body_length)
qed

lemma v1_frame_at:
  assumes "length payload \<le> 498"
  shows "frame_at (v1_frame msg seq ticks payload @ rest)"
    and "frame_of (v1_frame msg seq ticks payload @ rest) = Frame msg seq ticks payload"
    and "unat (be16_read (v1_frame msg seq ticks payload @ rest) 10) = length payload"
proof -
  let ?f = "v1_frame msg seq ticks payload"
  have n: "unat (of_nat (length payload) :: u16) = length payload"
    using assms by (simp add: unat_of_nat)
  have hd: "(?f @ rest) ! 0 = 0xAA" "(?f @ rest) ! 1 = 0x55" "(?f @ rest) ! 2 = PROTO_VER_1"
    "(?f @ rest) ! 3 = msg"
    using v1_frame_fields(1-4) [of msg seq ticks payload]
    by (simp_all add: nth_append v1_frame_length)
  show len: "unat (be16_read (?f @ rest) 10) = length payload"
    by (simp add: v1_frame_fields n)
  show "frame_at (?f @ rest)"
    using assms hd
    by (simp add: frame_at_def Let_def len v1_frame_length RX_BUF_CAP_def v1_frame_fields n
        del: drop_append)
  show "frame_of (?f @ rest) = Frame msg seq ticks payload"
    using hd by (simp add: frame_of_def len v1_frame_fields n del: drop_append)
qed

lemma v1_frame_valid:
  "length payload \<le> 498 \<Longrightarrow> frame_valid (v1_frame msg seq ticks payload)"
  using v1_frame_at(1,3) [of payload msg seq ticks "[]"]
  by (simp add: frame_valid_def v1_frame_length)

lemma concat_be16_length:
  "length (concat (map (\<lambda>i. be16_write (g i)) xs)) = 2 * length xs"
  by (induction xs) (simp_all add: be16_write_length)

lemma protocol_pack_pwm_frame:
  "30 \<le> out_cap \<Longrightarrow>
   protocol_pack_pwm pwm8 out_cap ticks seq =
     Some (v1_frame MSG_PWM seq ticks
             (concat (map (\<lambda>i. be16_write (if pwm8 ! i > 10000 then 10000 else pwm8 ! i)) [0..<8])),
           seq + 1)"
  by (simp add: protocol_pack_pwm_def Let_def v1_frame_def v1_body_def pack_be32_write_eq
      pack_crc16_ccitt_eq be16_write_length be32_write_length concat_be16_length)

lemma protocol_pack_heartbeat_frame:
  "14 \<le> out_cap \<Longrightarrow>
   protocol_pack_heartbeat out_cap ticks seq = Some (v1_frame MSG_HB seq ticks [], seq + 1)"
  by (simp add: protocol_pack_heartbeat_def Let_def v1_frame_def v1_body_def pack_be32_write_eq
      pack_crc16_ccitt_eq be16_write_length be32_write_length)

lemma hb_ack_frame_v1: "hb_ack_frame seq now = v1_frame MSG_HB_ACK seq now []"
  by (simp add: hb_ack_frame_def Let_def v1_frame_def v1_body_def)

subsection \<open>The drain loop on one frame and on a piece of one\<close>

lemma try_parse_empty: "rxbuf s = [] \<Longrightarrow> try_parse_one_frame now s = (False, 0, s)"
  by (simp add: try_parse_one_frame_def)

lemma try_parse_partial:
  assumes "frame_valid f" and "0 < k" and "k < length f" and "rxbuf s = take k f"
  shows "try_parse_one_frame now s = (False, 0, s)"
proof (cases "k < 14")
  case True
  have "sof_scan (take k f) 0 = 0"
  proof (cases "k \<le> 1")
    case True
    then show ?thesis
      by (simp add: sof_scan_short)
  next
    case False
    with assms show ?thesis
      by (simp add: sof_scan_zero_iff frame_valid_def frame_at_def)
  qed
  with True assms show ?thesis
    by (simp add: try_parse_one_frame_def Let_def MIN_FRAME_LEN_def)
next
  case False
  with assms have "sof_scan (take k f) 0 = 0"
    by (simp add: sof_scan_zero_iff frame_valid_def frame_at_def)
  moreover have "be16_read (take k f) 10 = be16_read f 10"
    using False by (simp add: be16_read_def)
  ultimately show ?thesis
    using False assms
    by (simp add: try_parse_one_frame_def Let_def MIN_FRAME_LEN_def frame_valid_def frame_at_def)
qed

lemma process_rx_buffer_stop:
  "try_parse_one_frame now s = (False, c, s') \<Longrightarrow> process_rx_buffer now s = s'"
  by (subst process_rx_buffer.simps) simp

lemma process_rx_buffer_frame:
  assumes "frame_at (rxbuf s)"
  shows "process_rx_buffer now s =
     process_rx_buffer now
       ((dispatch_frame now (rxbuf s ! 3) (be16_read (rxbuf s) 4) (be32_read (rxbuf s) 6)
           (be16_read (rxbuf s) 10) (take (unat (be16_read (rxbuf s) 10)) (drop 12 (rxbuf s))) s)
        \<lparr>rxbuf := drop (14 + unat (be16_read (rxbuf s) 10)) (rxbuf s)\<rparr>)"
  by (subst process_rx_buffer.simps) (simp add: try_parse_frame_at [OF assms] dispatch_frame_rxbuf)

lemma process_rx_buffer_one:
  assumes "frame_valid f" and "rxbuf s = f"
  shows "process_rx_buffer now s =
     (dispatch_frame now (f ! 3) (be16_read f 4) (be32_read f 6) (be16_read f 10)
        (take (unat (be16_read f 10)) (drop 12 f)) s)\<lparr>rxbuf := []\<rparr>"
proof -
  from assms have "frame_at (rxbuf s)" and "length f = 14 + unat (be16_read f 10)"
    by (simp_all add: frame_valid_def)
  then show ?thesis
    using assms(2)
    by (simp add: process_rx_buffer_frame process_rx_buffer_stop [OF try_parse_empty])
qed

lemma process_rx_buffer_partial:
  assumes "frame_valid f" and "0 < k" and "k < length f" and "rxbuf s = take k f"
  shows "process_rx_buffer now s = s"
  by (rule process_rx_buffer_stop [OF try_parse_partial [OF assms]])

lemma feed_into_empty:
  assumes "protocol_flag s = 0" and "rxbuf s = []" and "data \<noteq> []" and "length data \<le> 512"
  shows "protocol_feed_bytes data s = s\<lparr>rxbuf := data, protocol_flag := 1\<rparr>"
  using assms by (simp add: protocol_feed_bytes_def Let_def RX_BUF_CAP_def)

lemma feed_append:
  assumes "protocol_flag s = 0" and "data \<noteq> []" and "length (rxbuf s) + length data \<le> 512"
  shows "protocol_feed_bytes data s = s\<lparr>rxbuf := rxbuf s @ data, protocol_flag := 1\<rparr>"
  using assms by (simp add: protocol_feed_bytes_def Let_def RX_BUF_CAP_def)

lemma frame_valid_length: "frame_valid f \<Longrightarrow> 14 \<le> length f \<and> length f \<le> 512"
  by (auto simp: frame_valid_def frame_at_def Let_def RX_BUF_CAP_def)

subsection \<open>Command payloads\<close>

lemma be16_read_concat:
  "i < length vs \<Longrightarrow> be16_read (concat (map be16_write vs)) (i * 2) = vs ! i"
proof (induction vs arbitrary: i)
  case Nil
  then show ?case by simp
next
  case (Cons v vs)
  show ?case
  proof (cases i)
    case 0
    then show ?thesis
      using be16_read_at [of "[]" 0 v "concat (map be16_write vs)"] by simp
  next
    case (Suc j)
    with Cons.prems have "j < length vs"
      by simp
    from Cons.IH [OF this] show ?thesis
      using be16_read_shift [of "be16_write v" "concat (map be16_write vs)" "j * 2"] Suc
      by (simp add: be16_write_length add.commute)
  qed
qed

lemma pwm_payload_values_concat:
  assumes "length vs = 8"
  shows "pwm_payload_values (concat (map be16_write vs)) =
    map (\<lambda>v. if v > 10000 then 10000 else v) vs"
proof -
  have "map (\<lambda>i. let v = be16_read (concat (map be16_write vs)) (i * 2)
                  in if v > 10000 then 10000 else v) [0..<length vs] =
        map (\<lambda>i. if vs ! i > 10000 then 10000 else vs ! i) [0..<length vs]"
    by (rule map_cong) (simp_all add: be16_read_concat Let_def)
  also have "\<dots> = map (\<lambda>v. if v > 10000 then 10000 else v) (map (nth vs) [0..<length vs])"
    by simp
  also have "\<dots> = map (\<lambda>v. if v > 10000 then 10000 else v) vs"
    by (simp only: map_nth)
  finally show ?thesis
    using assms by (simp add: pwm_payload_values_def)
qed

lemma pwm_payload_values_clamped:
  assumes "length pwm8 = 8"
  shows "pwm_payload_values
      (concat (map (\<lambda>v. be16_write (if v > 10000 then 10000 else v)) pwm8)) =
    map (\<lambda>v. if v > 10000 then 10000 else v) pwm8"
proof -
  have "concat (map (\<lambda>v. be16_write (if v > 10000 then 10000 else v)) pwm8) =
      concat (map be16_write (map (\<lambda>v. if v > 10000 then 10000 else v) pwm8))"
    by (simp add: comp_def)
  then show ?thesis
    using assms pwm_payload_values_concat [of "map (\<lambda>v. if v > 10000 then 10000 else v) pwm8"]
    by (simp add: comp_def)
qed

lemma pack_payload_eq:
  assumes "length pwm8 = 8"
  shows "concat (map (\<lambda>i. be16_write (if pwm8 ! i > 10000 then 10000 else pwm8 ! i)) [0..<8]) =
    concat (map (\<lambda>v. be16_write (if v > 10000 then 10000 else v)) pwm8)"
proof -
  have "map (\<lambda>i. be16_write (if pwm8 ! i > 10000 then 10000 else pwm8 ! i)) [0..<length pwm8] =
      map (\<lambda>v. be16_write (if v > 10000 then 10000 else v)) (map (nth pwm8) [0..<length pwm8])"
    by simp
  also have "\<dots> = map (\<lambda>v. be16_write (if v > 10000 then 10000 else v)) pwm8"
    by (simp only: map_nth)
  finally show ?thesis
    using assms by simp
qed

lemma v1_frame_ticks_bytes: "take 4 (drop 6 (v1_frame msg seq ticks payload)) = be32_write ticks"
  by (simp add: v1_frame_def v1_body_def be16_write_def be32_write_def)

lemma v1_frame_seq_bytes: "take 2 (drop 4 (v1_frame msg seq ticks payload)) = be16_write seq"
  by (simp add: v1_frame_def v1_body_def be16_write_def be32_write_def)

subsection \<open>Induction over the drain loop\<close>

lemma process_rx_buffer_unfold:
  "process_rx_buffer now s =
     (case try_parse_one_frame now s of
        (False, c, s') \<Rightarrow> s'
      | (True, c, s') \<Rightarrow> process_rx_buffer now (s'\<lparr>rxbuf := drop c (rxbuf s')\<rparr>))"
proof -
  obtain b c s' where tp: "try_parse_one_frame now s = (b, c, s')"
    by (metis prod_cases3)
  show ?thesis
  proof (cases b)
    case True
    with tp try_parse_consumed [of now s c s'] have "0 < c"
      by simp
    with tp True show ?thesis
      by (subst process_rx_buffer.simps) simp
  next
    case False
    with tp show ?thesis
      by (subst process_rx_buffer.simps) simp
  qed
qed

lemma process_rx_iterations_unfold:
  "process_rx_iterations now s =
     (case try_parse_one_frame now s of
        (False, c, s') \<Rightarrow> 0
      | (True, c, s') \<Rightarrow> Suc (process_rx_iterations now (s'\<lparr>rxbuf := drop c (rxbuf s')\<rparr>)))"
proof -
  obtain b c s' where tp: "try_parse_one_frame now s = (b, c, s')"
    by (metis prod_cases3)
  show ?thesis
  proof (cases b)
    case True
    with tp try_parse_consumed [of now s c s'] have "0 < c"
      by simp
    with tp True show ?thesis
      by (subst process_rx_iterations.simps) simp
  next
    case False
    with tp show ?thesis
      by (subst process_rx_iterations.simps) simp
  qed
qed

lemma drain_induct [consumes 0, case_names step]:
  assumes "\<And>s. (\<And>c s'. try_parse_one_frame now s = (True, c, s') \<Longrightarrow>
                     P (s'\<lparr>rxbuf := drop c (rxbuf s')\<rparr>)) \<Longrightarrow> P s"
  shows "P s"
proof (induction "length (rxbuf s)" arbitrary: s rule: less_induct)
  case less
  show ?case
  proof (rule assms)
    fix c s'
    assume "try_parse_one_frame now s = (True, c, s')"
    from try_parse_consumed [OF this]
    have "length (rxbuf (s'\<lparr>rxbuf := drop c (rxbuf s')\<rparr>)) < length (rxbuf s)"
      by auto
    then show "P (s'\<lparr>rxbuf := drop c (rxbuf s')\<rparr>)"
      by (rule less)
  qed
qed

lemma try_parse_cases:
  obtains (frame) "frame_at (rxbuf s)"
      "try_parse_one_frame now s =
         (True, 14 + unat (be16_read (rxbuf s) 10),
          dispatch_frame now (rxbuf s ! 3) (be16_read (rxbuf s) 4) (be32_read (rxbuf s) 6)
            (be16_read (rxbuf s) 10)
            (take (unat (be16_read (rxbuf s) 10)) (drop 12 (rxbuf s))) s)"
  | (other) b c s' where "\<not> frame_at (rxbuf s)" "try_parse_one_frame now s = (b, c, s')"
      "dispatched s' = dispatched s" "pwm_out s' = pwm_out s" "uart_tx s' = uart_tx s"
      "last_ok_rx_ms s' = last_ok_rx_ms s" "rxbuf s' = rxbuf s"
proof (cases "frame_at (rxbuf s)")
  case True
  show ?thesis
    by (rule frame) (rule True, rule try_parse_frame_at [OF True])
next
  case no_frame: False
  obtain b c s' where tp: "try_parse_one_frame now s = (b, c, s')"
    by (metis prod_cases3)
  have "dispatched s' = dispatched s \<and> pwm_out s' = pwm_out s \<and> uart_tx s' = uart_tx s \<and>
      last_ok_rx_ms s' = last_ok_rx_ms s \<and> rxbuf s' = rxbuf s"
  proof (cases "2 \<le> length (rxbuf s)")
    case True
    with no_frame tp show ?thesis
      using sof_scan_zero_iff [of "rxbuf s"]
      by (auto simp: try_parse_one_frame_def frame_at_def Let_def MIN_FRAME_LEN_def
          split: if_splits)
  next
    case False
    then have "sof_scan (rxbuf s) 0 = 0"
      by (simp add: sof_scan_short)
    with False no_frame tp show ?thesis
      by (auto simp: try_parse_one_frame_def Let_def MIN_FRAME_LEN_def split: if_splits)
  qed
  then show ?thesis
    using other [OF no_frame tp] by blast
qed

lemma feed_capacity:
  "length (rxbuf s) \<le> RX_BUF_CAP \<Longrightarrow> length (rxbuf (protocol_feed_bytes data s)) \<le> RX_BUF_CAP"
  by (auto simp: protocol_feed_bytes_def Let_def)

lemma drain_shrinks: "length (rxbuf (process_rx_buffer now s)) \<le> length (rxbuf s)"
proof (induction s rule: drain_induct [where now = now])
  case (step s)
  obtain b c s' where tp: "try_parse_one_frame now s = (b, c, s')"
    by (metis prod_cases3)
  show ?case
  proof (cases b)
    case True
    with tp step [of c s'] try_parse_consumed [of now s c s'] show ?thesis
      by (subst process_rx_buffer_unfold) auto
  next
    case False
    with tp show ?thesis
      by (cases rule: try_parse_cases [of s now]) (auto simp: process_rx_buffer_unfold)
  qed
qed

lemma drain_iterations: "process_rx_iterations now s \<le> length (rxbuf s)"
proof (induction s rule: drain_induct [where now = now])
  case (step s)
  obtain b c s' where tp: "try_parse_one_frame now s = (b, c, s')"
    by (metis prod_cases3)
  show ?case
  proof (cases b)
    case True
    with tp step [of c s'] try_parse_consumed [of now s c s'] show ?thesis
      by (subst process_rx_iterations_unfold) auto
  next
    case False
    with tp show ?thesis
      by (simp add: process_rx_iterations_unfold)
  qed
qed

lemma drain_noise:
  assumes "\<forall>i. \<not> frame_at (drop i (rxbuf s))"
  shows "dispatched (process_rx_buffer now s) = dispatched s \<and>
    pwm_out (process_rx_buffer now s) = pwm_out s \<and>
    uart_tx (process_rx_buffer now s) = uart_tx s \<and>
    last_ok_rx_ms (process_rx_buffer now s) = last_ok_rx_ms s"
  using assms
proof (induction s rule: drain_induct [where now = now])
  case (step s)
  from step.prems have "\<not> frame_at (drop 0 (rxbuf s))"
    by blast
  then have nf: "\<not> frame_at (rxbuf s)"
    by simp
  show ?case
  proof (cases rule: try_parse_cases [of s now])
    case frame
    with nf show ?thesis by simp
  next
    case (other b c s')
    show ?thesis
    proof (cases b)
      case True
      have "\<forall>i. \<not> frame_at (drop i (rxbuf (s'\<lparr>rxbuf := drop c (rxbuf s')\<rparr>)))"
        using step.prems other by (simp add: add.commute)
      with step.IH [of c s'] other True show ?thesis
        by (subst (1 2 3 4) process_rx_buffer_unfold) simp
    next
      case False
      with other show ?thesis
        by (simp add: process_rx_buffer_unfold)
    qed
  qed
qed

lemma drain_last_ok:
  "\<exists>new. dispatched (process_rx_buffer now s) = dispatched s @ new \<and>
     last_ok_rx_ms (process_rx_buffer now s) =
       (if \<exists>fr \<in> set new. f_msg fr = MSG_PWM \<or> f_msg fr = MSG_HB then now
        else last_ok_rx_ms s)"
proof (induction s rule: drain_induct [where now = now])
  case (step s)
  show ?case
  proof (cases rule: try_parse_cases [of s now])
    case frame
    let ?d = "dispatch_frame now (rxbuf s ! 3) (be16_read (rxbuf s) 4) (be32_read (rxbuf s) 6)
        (be16_read (rxbuf s) 10) (take (unat (be16_read (rxbuf s) 10)) (drop 12 (rxbuf s))) s"
    let ?c = "14 + unat (be16_read (rxbuf s) 10)"
    let ?s1 = "?d\<lparr>rxbuf := drop ?c (rxbuf ?d)\<rparr>"
    from step [OF frame(2)] obtain new where
      new: "dispatched (process_rx_buffer now ?s1) = dispatched ?s1 @ new"
        "last_ok_rx_ms (process_rx_buffer now ?s1) =
           (if \<exists>fr \<in> set new. f_msg fr = MSG_PWM \<or> f_msg fr = MSG_HB then now
            else last_ok_rx_ms ?s1)"
      by blast
    have unf: "process_rx_buffer now s = process_rx_buffer now ?s1"
      by (subst process_rx_buffer_unfold) (simp add: frame(2))
    have "dispatched (process_rx_buffer now s) =
        dispatched s @ (frame_of (rxbuf s) # new)"
      by (simp add: unf new dispatch_frame_dispatched frame_of_def)
    moreover have "last_ok_rx_ms (process_rx_buffer now s) =
        (if \<exists>fr \<in> set (frame_of (rxbuf s) # new). f_msg fr = MSG_PWM \<or> f_msg fr = MSG_HB
         then now else last_ok_rx_ms s)"
      by (simp add: unf new dispatch_frame_last_ok frame_of_def)
    ultimately show ?thesis
      by blast
  next
    case (other b c s')
    show ?thesis
    proof (cases b)
      case True
      let ?s1 = "s'\<lparr>rxbuf := drop c (rxbuf s')\<rparr>"
      from other True have tp: "try_parse_one_frame now s = (True, c, s')"
        by simp
      from step [OF tp] obtain new where
        new: "dispatched (process_rx_buffer now ?s1) = dispatched ?s1 @ new"
          "last_ok_rx_ms (process_rx_buffer now ?s1) =
             (if \<exists>fr \<in> set new. f_msg fr = MSG_PWM \<or> f_msg fr = MSG_HB then now
              else last_ok_rx_ms ?s1)"
        by blast
      have unf: "process_rx_buffer now s = process_rx_buffer now ?s1"
        using other True by (subst process_rx_buffer_unfold) simp
      show ?thesis
        using new other by (simp add: unf)
    next
      case False
      with other have "process_rx_buffer now s = s'"
        by (simp add: process_rx_buffer_unfold)
      with other show ?thesis
        by simp
    qed
  qed
qed

subsection \<open>The shaper: one channel in one step\<close>






lemma step_next_pct_nth:
  "i < 8 \<Longrightarrow> step_next_pct msk s ! i =
     step_channel (s_cfg s) msk (max_step_pct_effective s) i (s_current_pct s ! i)
       (s_target_pct s ! i)"
  by (simp add: step_next_pct_def)

lemma active_mask_fields:
  "s_cfg (snd (active_mask_for_this_step s)) = s_cfg s"
  "s_current_pct (snd (active_mask_for_this_step s)) = s_current_pct s"
  "s_target_pct (snd (active_mask_for_this_step s)) = s_target_pct s"
  "s_step_count (snd (active_mask_for_this_step s)) = s_step_count s"
  "s_inited (snd (active_mask_for_this_step s)) = s_inited s"
  by (simp_all add: active_mask_for_this_step_def)

lemma pwm_ctrl_step_current:
  "i < 8 \<Longrightarrow> s_current_pct (snd (pwm_ctrl_step rc s)) ! i =
     (if s_inited s \<noteq> 0 \<and> rc = PWMH_OK
      then step_channel (s_cfg s) (fst (active_mask_for_this_step s))
             (max_step_pct_effective s) i (s_current_pct s ! i) (s_target_pct s ! i)
      else s_current_pct s ! i)"
  by (simp add: pwm_ctrl_step_def Let_def split_beta step_next_pct_nth active_mask_fields
      max_step_pct_effective_def)

lemma max_step_pct_effective_pos: "0 < max_step_pct_effective s"
  by (simp add: max_step_pct_effective_def)

lemma pwm_ctrl_step_fields:
  "s_cfg (snd (pwm_ctrl_step rc s)) = s_cfg s"
  "s_target_pct (snd (pwm_ctrl_step rc s)) = s_target_pct s"
  "s_inited (snd (pwm_ctrl_step rc s)) = s_inited s"
  by (simp_all add: pwm_ctrl_step_def Let_def split_beta active_mask_fields)

lemma pwm_ctrl_steps_fields:
  "s_cfg (pwm_ctrl_steps rcs s) = s_cfg s"
  "s_target_pct (pwm_ctrl_steps rcs s) = s_target_pct s"
  "s_inited (pwm_ctrl_steps rcs s) = s_inited s"
  by (induction rcs arbitrary: s) (simp_all add: pwm_ctrl_step_fields)

lemma pwm_ctrl_steps_snoc:
  "pwm_ctrl_steps (rcs @ [rc]) s = snd (pwm_ctrl_step rc (pwm_ctrl_steps rcs s))"
  by (induction rcs arbitrary: s) simp_all

lemma pwm_ctrl_steps_take_Suc:
  "pwm_ctrl_steps (take (Suc k) rcs) s =
     (if k < length rcs then snd (pwm_ctrl_step (rcs ! k) (pwm_ctrl_steps (take k rcs) s))
      else pwm_ctrl_steps (take k rcs) s)"
  by (simp add: take_Suc_conv_app_nth pwm_ctrl_steps_snoc)

text \<open>
  The upper end \<open>f32_add mid REV_EPS\<close> of the band of the side test is not below the
  midpoint.
\<close>

lemma band_upper: "is_f32 mid \<Longrightarrow> mid \<le> f32_add mid REV_EPS"
  unfolding f32_add_def using REV_EPS_nonneg by (intro f32_round_ge) simp_all

text \<open>
  A channel above the band with a target below it heads for the midpoint and does not
  pass it in this step. The difference \<^verbatim>\<open>mid - cur\<close> is exact because \<open>cur \<le> 2 * mid\<close>.
\<close>

lemma step_channel_toward_mid:
  assumes "enable_reverse_protection cfg \<noteq> 0" and "0 < min_pct cfg"
    and "min_pct cfg \<le> mid_pct cfg" and "mid_pct cfg \<le> max_pct cfg"
    and "is_f32 (mid_pct cfg)" and "is_f32 cur" and "cur \<le> 2 * mid_pct cfg"
    and "tgt < f32_sub (mid_pct cfg) REV_EPS" and "f32_add (mid_pct cfg) REV_EPS < cur"
    and "0 < ms"
  shows "mid_pct cfg \<le> step_channel cfg msk ms i cur tgt"
proof -
  let ?mid = "mid_pct cfg"
  have above: "?mid < cur"
    using band_upper [OF assms(5)] assms(9) by simp
  have pos: "0 < ?mid"
    using assms(2,3) by simp
  have "f32_round (cur - ?mid) = cur - ?mid"
    using assms(5-7) above pos by (intro f32_sub_exact) simp_all
  then have "f32_round (- (cur - ?mid)) = - (cur - ?mid)"
    by (simp only: f32_round_minus)
  then have delta: "f32_sub ?mid cur = ?mid - cur"
    by (simp add: f32_sub_def)
  have eff: "eff_target cfg cur tgt = ?mid"
    using assms(1,8,9) by (simp add: eff_target_def Let_def)
  have "?mid \<le> f32_round (cur + limit_delta ms (?mid - cur))"
    using above assms(10) by (intro f32_round_ge [OF assms(5)]) (simp add: limit_delta_def)
  then have "?mid \<le> clamp_pct cfg (f32_add cur (limit_delta ms (?mid - cur)))"
    using assms(2-4) by (simp add: clamp_pct_def Let_def f32_add_def)
  with above show ?thesis
    by (simp add: step_channel_def Let_def eff delta)
qed

text \<open>A step keeps a channel a binary32 number and at most the maximum.\<close>

lemma step_channel_keeps:
  assumes "0 < min_pct cfg" and "min_pct cfg \<le> max_pct cfg"
    and "is_f32 (min_pct cfg)" and "is_f32 (max_pct cfg)"
    and "is_f32 cur" and "cur \<le> max_pct cfg"
  shows "is_f32 (step_channel cfg msk ms i cur tgt) \<and>
    step_channel cfg msk ms i cur tgt \<le> max_pct cfg"
  using assms by (simp add: step_channel_def clamp_pct_def Let_def f32_add_def is_f32_round)

lemma pwm_ctrl_step_toward_mid:
  assumes "enable_reverse_protection (s_cfg s) \<noteq> 0" and "0 < min_pct (s_cfg s)"
    and "min_pct (s_cfg s) \<le> mid_pct (s_cfg s)" and "mid_pct (s_cfg s) \<le> max_pct (s_cfg s)"
    and "is_f32 (mid_pct (s_cfg s))" and "is_f32 (s_current_pct s ! i)"
    and "s_current_pct s ! i \<le> 2 * mid_pct (s_cfg s)"
    and "i < 8" and "s_target_pct s ! i < f32_sub (mid_pct (s_cfg s)) REV_EPS"
    and "f32_add (mid_pct (s_cfg s)) REV_EPS < s_current_pct s ! i"
  shows "mid_pct (s_cfg s) \<le> s_current_pct (snd (pwm_ctrl_step rc s)) ! i"
proof -
  have "mid_pct (s_cfg s) \<le> s_current_pct s ! i"
    using band_upper [OF assms(5)] assms(10) by simp
  with step_channel_toward_mid [OF assms(1-7) assms(9,10) max_step_pct_effective_pos]
  show ?thesis
    by (simp add: pwm_ctrl_step_current [OF assms(8)])
qed

lemma pwm_ctrl_step_keeps:
  assumes "0 < min_pct (s_cfg s)" and "min_pct (s_cfg s) \<le> max_pct (s_cfg s)"
    and "is_f32 (min_pct (s_cfg s))" and "is_f32 (max_pct (s_cfg s))"
    and "is_f32 (s_current_pct s ! i)" and "s_current_pct s ! i \<le> max_pct (s_cfg s)"
    and "i < 8"
  shows "is_f32 (s_current_pct (snd (pwm_ctrl_step rc s)) ! i) \<and>
    s_current_pct (snd (pwm_ctrl_step rc s)) ! i \<le> max_pct (s_cfg s)"
  using step_channel_keeps [OF assms(1-6)] assms(5,6)
  by (simp add: pwm_ctrl_step_current [OF assms(7)])

subsection \<open>The shaper: initialisation and evaluation of concrete runs\<close>

lemma init_config_example:
  assumes "0 < ms" and "mode = 0 \<or> mode = 1"
  shows "init_config (Some (example_cfg ms mode)) = example_cfg ms mode"
  using assms
  by (auto simp: init_config_def example_cfg_def Let_def PWM_CTRL_GROUP_MODE_ALL_def
      PWM_CTRL_GROUP_MODE_AB_ALTERNATE_def PWM_HOST_PCT_MIN_def PWM_HOST_PCT_MID_def
      PWM_HOST_PCT_MAX_def)

lemma init_config_default: "init_config None = example_cfg (f32_round 0.2) 0"
  by (simp add: init_config_def example_cfg_def zero_config_def Let_def PWM_HOST_PCT_MIN_def
      PWM_HOST_PCT_MID_def PWM_HOST_PCT_MAX_def PWM_CH_MASK_1_4_def PWM_CH_MASK_5_8_def
      PWM_CTRL_GROUP_MODE_ALL_def PWM_CTRL_GROUP_MODE_AB_ALTERNATE_def)

lemma pwm_ctrl_init_ok:
  "pwm_ctrl_init cfg PWMH_OK s =
     (PWM_CTRL_OK,
      ctrl_at (init_config cfg)
        (replicate 8 (if mid_pct (init_config cfg) > 0 then mid_pct (init_config cfg)
                      else PWM_HOST_PCT_MID))
        (replicate 8 (if mid_pct (init_config cfg) > 0 then mid_pct (init_config cfg)
                      else PWM_HOST_PCT_MID)) 0 0)"
  by (simp add: pwm_ctrl_init_def init_state_to_mid_def Let_def ctrl_at_def)

lemma pwm_ctrl_init_example:
  "0 < ms \<Longrightarrow> mode = 0 \<or> mode = 1 \<Longrightarrow>
   pwm_ctrl_init (Some (example_cfg ms mode)) PWMH_OK s =
     (PWM_CTRL_OK, ctrl_at (example_cfg ms mode) (replicate 8 7.5) (replicate 8 7.5) 0 0)"
  by (simp add: pwm_ctrl_init_ok init_config_example) (simp add: example_cfg_def)

lemma pwm_ctrl_init_default:
  "pwm_ctrl_init None PWMH_OK s =
     (PWM_CTRL_OK,
      ctrl_at (example_cfg (f32_round 0.2) 0) (replicate 8 7.5) (replicate 8 7.5) 0 0)"
  by (simp add: pwm_ctrl_init_ok init_config_default) (simp add: example_cfg_def)

lemma upt_8: "[0..<8] = [0, 1, 2, 3, 4, 5, 6, 7]"
  by (simp add: upt_conv_Cons)

lemma replicate_8: "replicate 8 x = [x, x, x, x, x, x, x, x]"
  by (simp add: numeral_eq_Suc)

lemma pwm_ctrl_step_toggle:
  "s_group_toggle (snd (pwm_ctrl_step rc s)) =
     (if s_inited s = 0 \<or> group_mode (s_cfg s) = PWM_CTRL_GROUP_MODE_ALL then s_group_toggle s
      else if s_group_toggle s = 0 then 1 else 0)"
  by (simp add: pwm_ctrl_step_def Let_def split_beta active_mask_for_this_step_def)

lemma pwm_ctrl_step_count:
  "s_step_count (snd (pwm_ctrl_step rc s)) =
     (if s_inited s \<noteq> 0 \<and> rc = PWMH_OK then s_step_count s + 1 else s_step_count s)"
  by (simp add: pwm_ctrl_step_def Let_def split_beta active_mask_fields)

lemma pwm_ctrl_step_rc:
  "fst (pwm_ctrl_step rc s) =
     (if s_inited s = 0 then PWM_CTRL_ERR_NOT_INIT
      else if rc \<noteq> PWMH_OK then PWM_CTRL_ERR_INTERNAL else PWM_CTRL_OK)"
  by (simp add: pwm_ctrl_step_def Let_def split_beta)

lemma active_mask_fst:
  "fst (active_mask_for_this_step s) =
     (if group_mode (s_cfg s) = PWM_CTRL_GROUP_MODE_ALL then PWM_CH_MASK_ALL
      else if s_group_toggle s = 0 then groupA_mask (s_cfg s) else groupB_mask (s_cfg s))"
  by (simp add: active_mask_for_this_step_def)

lemma pwm_ctrl_set_target_pct_fields:
  "s_cfg (snd (pwm_ctrl_set_target_pct ch pct s)) = s_cfg s"
  "s_current_pct (snd (pwm_ctrl_set_target_pct ch pct s)) = s_current_pct s"
  "s_inited (snd (pwm_ctrl_set_target_pct ch pct s)) = s_inited s"
  "s_group_toggle (snd (pwm_ctrl_set_target_pct ch pct s)) = s_group_toggle s"
  "s_step_count (snd (pwm_ctrl_set_target_pct ch pct s)) = s_step_count s"
  by (simp_all add: pwm_ctrl_set_target_pct_def Let_def)

lemma pwm_ctrl_set_target_pct_target:
  "s_target_pct (snd (pwm_ctrl_set_target_pct ch pct s)) =
     (if s_inited s = 0 \<or> ch < 1 \<or> ch > 8 then s_target_pct s
      else (s_target_pct s)[nat (ch - 1) :=
             clamp_pct (s_cfg s) (if pct < 0 then mid_pct (s_cfg s) else pct)])"
  by (simp add: pwm_ctrl_set_target_pct_def Let_def)

lemmas channel_eval =
  pwm_ctrl_step_current pwm_ctrl_step_fields pwm_ctrl_step_toggle pwm_ctrl_step_count
  pwm_ctrl_step_rc active_mask_fst
  pwm_ctrl_set_target_pct_fields pwm_ctrl_set_target_pct_target
  step_channel_def eff_target_def limit_delta_def clamp_pct_def max_step_pct_effective_def
  REV_EPS_value f32_eval ch_in_mask_def example_cfg_def ctrl_at_def
  PWM_CTRL_GROUP_MODE_ALL_def PWM_CH_MASK_ALL_def PWM_CTRL_OK_def PWM_CTRL_ERR_INTERNAL_def
  PWM_CTRL_ERR_NOT_INIT_def

lemma init_config_ordered:
  "0 < min_pct (init_config cfg) \<and> min_pct (init_config cfg) < mid_pct (init_config cfg) \<and>
   mid_pct (init_config cfg) < max_pct (init_config cfg)"
  by (simp add: init_config_def Let_def PWM_HOST_PCT_MIN_def PWM_HOST_PCT_MID_def
      PWM_HOST_PCT_MAX_def not_le)

lemma clamp_pct_mid:
  "0 < min_pct cfg \<Longrightarrow> min_pct cfg < mid_pct cfg \<Longrightarrow> mid_pct cfg < max_pct cfg \<Longrightarrow>
   clamp_pct cfg (mid_pct cfg) = mid_pct cfg"
  by (simp add: clamp_pct_def Let_def)

lemma pwm_host_percent_to_u16_mid: "pwm_host_percent_to_u16 PWM_HOST_PCT_MID = 5000"
  by (simp add: pwm_host_percent_to_u16_def PWM_HOST_PCT_MID_def PWM_HOST_PCT_MIN_def
      PWM_HOST_PCT_MAX_def PWM_HOST_VAL_MAX_def PWM_HOST_VAL_MIN_def c_trunc_def f32_eval
      cong: let_weak_cong)

subsection \<open>The host send path\<close>

lemma crc16_ccitt_false_eq: "crc16_ccitt_false data = crc16_ccitt data"
  by (simp add: crc16_ccitt_false_def pack_crc16_ccitt_eq [unfolded pack_crc16_ccitt_def])

lemma v1_pack_frame:
  "14 + length payload \<le> out_cap \<Longrightarrow>
   v1_pack msg payload out_cap ticks h =
     ((PWMH_OK, v1_frame msg (h_seq h + 1) ticks payload), h\<lparr>h_seq := h_seq h + 1\<rparr>)"
  by (simp add: v1_pack_def Let_def v1_frame_def v1_body_def crc16_ccitt_false_eq PROTO_VER_1_def
      be16_write_length be32_write_length)

lemma pwm_host_set_all_u16_sent:
  assumes "0 \<le> h_sock h"
  shows "h_shadow (snd (pwm_host_set_all_u16 sent_ok ticks v h)) =
      map (\<lambda>i. if v ! i > 10000 then 10000 else v ! i) [0..<8] \<and>
    h_sent (snd (pwm_host_set_all_u16 sent_ok ticks v h)) =
      h_sent h @ [v1_frame MSG_PWM (h_seq h + 1) ticks
        (concat (map be16_write (map (\<lambda>i. if v ! i > 10000 then 10000 else v ! i) [0..<8])))] \<and>
    fst (pwm_host_set_all_u16 sent_ok ticks v h) = (if sent_ok then PWMH_OK else PWMH_ESYS)"
proof -
  let ?p16 = "map (\<lambda>i. if v ! i > 10000 then 10000 else v ! i) [0..<8]"
  have len: "length (concat (map be16_write ?p16)) = 16"
    using concat_be16_length [of "\<lambda>v. v" ?p16] by simp
  show ?thesis
    using assms
    by (simp add: pwm_host_set_all_u16_def v1_send_frame_def Let_def v1_pack_frame len
        MSG_PWM_def del: map_map upt_Suc)
qed

lemma pwm_ctrl_set_targets_mask_target:
  "i < 8 \<Longrightarrow> s_inited s \<noteq> 0 \<Longrightarrow>
   s_target_pct (snd (pwm_ctrl_set_targets_mask msk (Some pcts) s)) ! i =
     (if \<not> ch_in_mask (int i + 1) msk then s_target_pct s ! i
      else clamp_pct (s_cfg s) (if pcts ! i < 0 then mid_pct (s_cfg s) else pcts ! i))"
  by (simp add: pwm_ctrl_set_targets_mask_def Let_def del: upt_Suc)

subsection \<open>Link supervision: the failsafe timeout\<close>

text \<open>
  Claim C2, as amended. The module keeps no ACTIVE/FAILSAFE state, only the timestamp.
  \<^verbatim>\<open>protocol_poll\<close> leaves the state alone while the elapsed time (modulo \<open>2^32\<close>) is
  within the timeout. When it is exceeded, the neutral output is invoked once at this
  poll and the timestamp is reset to \<open>now\<close>; a later poll within one timeout of that
  moment invokes nothing, and a later poll more than one timeout after it invokes the
  neutral output again. So during one continuous outage the effect is repeated once per
  elapsed timeout window. Dispatching a valid COMMAND or HEARTBEAT frame at time \<open>t\<close>
  restarts the window: a poll within the timeout of \<open>t\<close> invokes nothing.
\<close>

theorem protocol_poll_window:
  "(now - last_ok_rx_ms s \<le> failsafe_timeout_ms s \<longrightarrow> protocol_poll now s = s) \<and>
   (now - last_ok_rx_ms s > failsafe_timeout_ms s \<longrightarrow>
      pwm_out (protocol_poll now s) = pwm_out s @ neutral_calls \<and>
      last_ok_rx_ms (protocol_poll now s) = now \<and>
      (\<forall>now'. now' - now \<le> failsafe_timeout_ms s \<longrightarrow>
         protocol_poll now' (protocol_poll now s) = protocol_poll now s) \<and>
      (\<forall>now'. now' - now > failsafe_timeout_ms s \<longrightarrow>
         pwm_out (protocol_poll now' (protocol_poll now s)) =
           pwm_out s @ neutral_calls @ neutral_calls)) \<and>
   ((msg = MSG_PWM \<or> msg = MSG_HB) \<and> now - t \<le> failsafe_timeout_ms s \<longrightarrow>
      protocol_poll now (dispatch_frame t msg seq ticks len payload s) =
        dispatch_frame t msg seq ticks len payload s)"
  by (auto simp: protocol_poll_def enter_failsafe_mid_all_def dispatch_frame_timeout
      dispatch_frame_last_ok)

text \<open>
  The theorem at the initial state with the default timeout of 300 ms: a poll at 300 ms
  does nothing, a poll at 301 ms goes to neutral, a poll at 601 ms adds nothing, and a
  heartbeat dispatched at 500 ms keeps a poll at 700 ms quiet.
\<close>

theorem protocol_poll_window_witness:
  "pwm_out (protocol_poll 301 (protocol_init 0)) = neutral_calls \<and>
   protocol_poll 601 (protocol_poll 301 (protocol_init 0)) = protocol_poll 301 (protocol_init 0) \<and>
   protocol_poll 300 (protocol_init 0) = protocol_init 0 \<and>
   protocol_poll 700 (dispatch_frame 500 MSG_HB 1 2 0 [] (protocol_poll 301 (protocol_init 0))) =
     dispatch_frame 500 MSG_HB 1 2 0 [] (protocol_poll 301 (protocol_init 0))"
  using protocol_poll_window [of 301 "protocol_init 0" MSG_HB 0 0 0 0 "[]"]
    protocol_poll_window [of 300 "protocol_init 0" MSG_HB 0 0 0 0 "[]"]
    protocol_poll_window [of 700 "protocol_poll 301 (protocol_init 0)" MSG_HB 500 1 2 0 "[]"]
  by (simp add: protocol_init_def CFG_FAILSAFE_TIMEOUT_MS_def protocol_poll_def
      enter_failsafe_mid_all_def)

text \<open>
  Claim C2 as stated fails: with the timeout at 300 ms, the last valid frame at 0 ms and
  no frame at all afterwards, polls at 301 ms and 602 ms both invoke the neutral output,
  twice in one outage.
\<close>

theorem failsafe_once_counterexample:
  "pwm_out (protocol_poll 301 (protocol_init 0)) = neutral_calls \<and>
   pwm_out (protocol_poll 602 (protocol_poll 301 (protocol_init 0))) =
     neutral_calls @ neutral_calls \<and>
   dispatched (protocol_poll 602 (protocol_poll 301 (protocol_init 0))) = [] \<and>
   neutral_calls \<noteq> []"
  by (simp add: protocol_init_def CFG_FAILSAFE_TIMEOUT_MS_def protocol_poll_def
      enter_failsafe_mid_all_def neutral_calls_def)

subsection \<open>Command frames: host packer to device decoder\<close>

text \<open>
  Claim C3. For every vector \<open>pwm8\<close> of eight 16-bit values (and an output buffer of at
  least 30 bytes), \<^verbatim>\<open>protocol_pack_pwm\<close> succeeds and its 30 bytes are a valid frame. Fed
  to a device whose receive buffer is empty and drained, exactly one frame is dispatched,
  a COMMAND with the packer's sequence number and tick; the eight values the device reads
  from its payload are the inputs, each cut to at most 10000; these values go to channels
  1 to 8 as duties; \<^verbatim>\<open>rx_ok\<close> counts one frame and no error counter moves.
\<close>

theorem pwm_command_roundtrip:
  assumes "length pwm8 = 8" and "30 \<le> out_cap" and "rxbuf s = []" and "protocol_flag s = 0"
  shows "case protocol_pack_pwm pwm8 out_cap ticks seq of
      None \<Rightarrow> False
    | Some (bytes, seq') \<Rightarrow>
        frame_valid bytes \<and> length bytes = 30 \<and>
        (let s' = protocol_process now (protocol_feed_bytes bytes s) in
           (\<exists>payload. dispatched s' = dispatched s @ [Frame MSG_PWM seq ticks payload] \<and>
              pwm_payload_values payload = map (\<lambda>v. if v > 10000 then 10000 else v) pwm8) \<and>
           pwm_out s' = pwm_out s @
             zip [1, 2, 3, 4, 5, 6, 7, 8]
               (map duty_of (map (\<lambda>v. if v > 10000 then 10000 else v) pwm8)) \<and>
           rx_ok s' = rx_ok s + 1 \<and> rx_crc_err s' = rx_crc_err s \<and>
           rx_len_err s' = rx_len_err s \<and> rx_unsupported s' = rx_unsupported s \<and>
           rxbuf s' = [])"
proof -
  let ?clamp = "\<lambda>v :: u16. if v > 10000 then 10000 else v"
  let ?payload = "concat (map (\<lambda>v. be16_write (?clamp v)) pwm8)"
  let ?f = "v1_frame MSG_PWM seq ticks ?payload"
  have plen: "length ?payload = 16"
    using assms(1) concat_be16_length [of ?clamp pwm8] by simp
  have pack: "protocol_pack_pwm pwm8 out_cap ticks seq = Some (?f, seq + 1)"
    using assms(1,2) by (simp add: protocol_pack_pwm_frame pack_payload_eq)
  have valid: "frame_valid ?f"
    using plen by (intro v1_frame_valid) linarith
  have flen: "length ?f = 30"
    by (simp add: v1_frame_length plen)
  have fields: "?f ! 3 = MSG_PWM" "be16_read ?f 4 = seq" "be32_read ?f 6 = ticks"
    "be16_read ?f 10 = 16" "take 16 (drop 12 ?f) = ?payload"
    using v1_frame_fields(4) [where msg = MSG_PWM and seq = seq and ticks = ticks
        and payload = ?payload]
      v1_frame_fields(5-8) [where rest = "[]" and msg = MSG_PWM and seq = seq
        and ticks = ticks and payload = ?payload]
    by (simp_all add: plen)
  have feed: "protocol_feed_bytes ?f s = s\<lparr>rxbuf := ?f, protocol_flag := 1\<rparr>"
    using assms(3,4) flen by (intro feed_into_empty) auto
  have "process_rx_buffer now (s\<lparr>rxbuf := ?f, protocol_flag := 1\<rparr>) =
      (dispatch_frame now MSG_PWM seq ticks 16 ?payload (s\<lparr>rxbuf := ?f, protocol_flag := 1\<rparr>))
        \<lparr>rxbuf := []\<rparr>"
    using process_rx_buffer_one [OF valid, of "s\<lparr>rxbuf := ?f, protocol_flag := 1\<rparr>" now]
    by (simp add: fields)
  then have st: "protocol_process now (protocol_feed_bytes ?f s) =
      (dispatch_frame now MSG_PWM seq ticks 16 ?payload (s\<lparr>rxbuf := ?f, protocol_flag := 1\<rparr>))
        \<lparr>rxbuf := [], protocol_flag := 0\<rparr>"
    by (simp only: feed) (simp add: protocol_process_def)
  have vals: "pwm_payload_values ?payload = map ?clamp pwm8"
    using assms(1) by (rule pwm_payload_values_clamped)
  show ?thesis
    unfolding pack
    by (simp add: valid flen st Let_def dispatch_frame_def handle_msg_pwm_def vals)
qed

text \<open>The theorem at the vector \<open>[0, 5000, 10000, 10001, 65535, 1, 2, 3]\<close>.\<close>

theorem pwm_command_roundtrip_witness:
  "case protocol_pack_pwm [0, 5000, 10000, 10001, 65535, 1, 2, 3] 32 1234 7 of
      None \<Rightarrow> False
    | Some (bytes, seq') \<Rightarrow>
        frame_valid bytes \<and> length bytes = 30 \<and>
        (let s' = protocol_process 5 (protocol_feed_bytes bytes (protocol_init 0)) in
           (\<exists>payload. dispatched s' =
                dispatched (protocol_init 0) @ [Frame MSG_PWM 7 1234 payload] \<and>
              pwm_payload_values payload =
                map (\<lambda>v. if v > 10000 then 10000 else v) [0, 5000, 10000, 10001, 65535, 1, 2, 3]) \<and>
           pwm_out s' = pwm_out (protocol_init 0) @
             zip [1, 2, 3, 4, 5, 6, 7, 8]
               (map duty_of (map (\<lambda>v. if v > 10000 then 10000 else v)
                  [0, 5000, 10000, 10001, 65535, 1, 2, 3])) \<and>
           rx_ok s' = rx_ok (protocol_init 0) + 1 \<and>
           rx_crc_err s' = rx_crc_err (protocol_init 0) \<and>
           rx_len_err s' = rx_len_err (protocol_init 0) \<and>
           rx_unsupported s' = rx_unsupported (protocol_init 0) \<and>
           rxbuf s' = [])"
proof -
  have h: "length [0, 5000, 10000, 10001, 65535, 1, 2, 3 :: u16] = 8" "(30 :: nat) \<le> 32"
    "rxbuf (protocol_init 0) = []" "protocol_flag (protocol_init 0) = 0"
    by (simp_all add: protocol_init_def)
  from pwm_command_roundtrip [OF h] show ?thesis .
qed

subsection \<open>A frame that arrives in two pieces\<close>

text \<open>
  Claim C6, as amended. A valid frame \<open>f\<close> is cut at any position \<open>k\<close> before its end and
  fed in two \<^verbatim>\<open>protocol_feed_bytes\<close> calls to a device whose buffer is empty and whose
  \<^verbatim>\<open>protocol_flag\<close> is clear, with \<^verbatim>\<open>protocol_process\<close> run after each call. The first
  drain dispatches nothing; the second dispatches exactly the frame and leaves the buffer
  empty. The drain between the two calls is needed: it clears \<^verbatim>\<open>protocol_flag\<close>, and
  \<^verbatim>\<open>protocol_feed_bytes\<close> ignores its input while the flag is set.
\<close>

theorem split_frame_two_feeds:
  assumes "frame_valid f" and "k < length f"
    and "rxbuf s = []" and "protocol_flag s = 0"
  shows "dispatched (protocol_process now1 (protocol_feed_bytes (take k f) s)) = dispatched s \<and>
    dispatched (protocol_process now2 (protocol_feed_bytes (drop k f)
                  (protocol_process now1 (protocol_feed_bytes (take k f) s)))) =
      dispatched s @ [frame_of f] \<and>
    rxbuf (protocol_process now2 (protocol_feed_bytes (drop k f)
                  (protocol_process now1 (protocol_feed_bytes (take k f) s)))) = []"
proof -
  from assms(1) have len: "14 \<le> length f" "length f \<le> 512"
    by (simp_all add: frame_valid_length)
  have ne: "f \<noteq> []" "drop k f \<noteq> []"
    using assms len by auto
  let ?s2 = "s\<lparr>rxbuf := take k f, protocol_flag := 0\<rparr>"
  let ?s3 = "s\<lparr>rxbuf := f, protocol_flag := 1\<rparr>"
  have st1: "protocol_process now1 (protocol_feed_bytes (take k f) s) = ?s2"
  proof (cases "k = 0")
    case True
    with assms(3,4) show ?thesis
      by (simp add: protocol_feed_bytes_def protocol_process_def)
  next
    case False
    let ?s1 = "s\<lparr>rxbuf := take k f, protocol_flag := 1\<rparr>"
    from False ne have "take k f \<noteq> []"
      by simp
    with assms len have feed1: "protocol_feed_bytes (take k f) s = ?s1"
      by (intro feed_into_empty) simp_all
    have "process_rx_buffer now1 ?s1 = ?s1"
      using assms False by (simp add: process_rx_buffer_partial [of f k])
    then have "protocol_process now1 ?s1 = ?s2"
      by (simp add: protocol_process_def)
    then show ?thesis
      by (simp only: feed1)
  qed
  have "protocol_feed_bytes (drop k f) ?s2 =
      ?s2\<lparr>rxbuf := rxbuf ?s2 @ drop k f, protocol_flag := 1\<rparr>"
    using assms len ne by (intro feed_append) simp_all
  then have feed2: "protocol_feed_bytes (drop k f) ?s2 = ?s3"
    by simp
  have proc2: "process_rx_buffer now2 ?s3 =
      (dispatch_frame now2 (f ! 3) (be16_read f 4) (be32_read f 6) (be16_read f 10)
         (take (unat (be16_read f 10)) (drop 12 f)) ?s3)\<lparr>rxbuf := []\<rparr>"
    using assms(1) by (simp add: process_rx_buffer_one)
  have st2: "protocol_process now2 (protocol_feed_bytes (drop k f) ?s2) =
      (dispatch_frame now2 (f ! 3) (be16_read f 4) (be32_read f 6) (be16_read f 10)
         (take (unat (be16_read f 10)) (drop 12 f)) ?s3)\<lparr>rxbuf := [], protocol_flag := 0\<rparr>"
    by (simp only: feed2) (simp add: protocol_process_def proc2)
  show ?thesis
    unfolding st1 st2 by (simp add: dispatch_frame_dispatched frame_of_def)
qed

text \<open>The theorem at a heartbeat frame (sequence 7, tick 9) cut after its fifth byte.\<close>

theorem split_frame_two_feeds_witness:
  "dispatched (protocol_process 1 (protocol_feed_bytes (take 5 (v1_frame MSG_HB 7 9 []))
      (protocol_init 0))) = [] \<and>
   dispatched (protocol_process 2 (protocol_feed_bytes (drop 5 (v1_frame MSG_HB 7 9 []))
      (protocol_process 1 (protocol_feed_bytes (take 5 (v1_frame MSG_HB 7 9 []))
         (protocol_init 0))))) = [Frame MSG_HB 7 9 []]"
proof -
  have h: "frame_valid (v1_frame MSG_HB 7 9 [])"
    "5 < length (v1_frame MSG_HB 7 9 [])" "rxbuf (protocol_init 0) = []"
    "protocol_flag (protocol_init 0) = 0"
    by (simp_all add: v1_frame_valid v1_frame_length protocol_init_def)
  have "frame_of (v1_frame MSG_HB 7 9 []) = Frame MSG_HB 7 9 []"
    using v1_frame_at(2) [of "[]" MSG_HB 7 9 "[]"] by simp
  with split_frame_two_feeds [OF h, of 1 2] show ?thesis
    by (simp add: protocol_init_def)
qed

text \<open>
  Claim C6 as stated fails when no drain runs between the two calls: the heartbeat frame
  that \<^verbatim>\<open>protocol_pack_heartbeat\<close> builds for sequence 7 and tick 9 is valid, yet fed as
  5 + 9 bytes with one drain at the end it yields no frame, because the second call is
  dropped by the flag guard.
\<close>

theorem split_frame_no_drain_counterexample:
  "frame_valid (v1_frame MSG_HB 7 9 []) \<and>
   protocol_pack_heartbeat 14 9 7 = Some (v1_frame MSG_HB 7 9 [], 8) \<and>
   dispatched (protocol_process 2 (protocol_feed_bytes (drop 5 (v1_frame MSG_HB 7 9 []))
      (protocol_feed_bytes (take 5 (v1_frame MSG_HB 7 9 [])) (protocol_init 0)))) = []"
proof -
  let ?f = "v1_frame MSG_HB 7 9 []"
  have valid: "frame_valid ?f"
    by (simp add: v1_frame_valid)
  have len: "length ?f = 14"
    by (simp add: v1_frame_length)
  let ?s1 = "(protocol_init 0)\<lparr>rxbuf := take 5 ?f, protocol_flag := 1\<rparr>"
  have feed1: "protocol_feed_bytes (take 5 ?f) (protocol_init 0) = ?s1"
    using len by (intro feed_into_empty) (auto simp: protocol_init_def)
  have feed2: "protocol_feed_bytes (drop 5 ?f) ?s1 = ?s1"
    by (simp add: protocol_feed_bytes_def)
  have "process_rx_buffer 2 ?s1 = ?s1"
    using valid len by (intro process_rx_buffer_partial [of ?f 5]) simp_all
  then have "dispatched (protocol_process 2 ?s1) = []"
    by (simp add: protocol_process_def protocol_init_def)
  then show ?thesis
    by (simp only: feed1 feed2) (simp add: valid protocol_pack_heartbeat_frame)
qed

subsection \<open>The reply to a heartbeat\<close>

text \<open>
  Claim C9, as amended. For every valid HEARTBEAT frame \<open>f\<close> received by a device with an
  empty buffer and drained at device time \<open>now\<close>, exactly one frame is handed to the UART:
  a valid 14-byte HEARTBEAT\_ACK that carries the sequence number of \<open>f\<close> and, in its
  timestamp field, the device's own tick \<open>now\<close>. The timestamp of \<open>f\<close> is not used.
\<close>

theorem heartbeat_ack_reply:
  assumes "frame_valid f" and "f ! 3 = MSG_HB" and "rxbuf s = []" and "protocol_flag s = 0"
  shows "uart_tx (protocol_process now (protocol_feed_bytes f s)) =
      uart_tx s @ [v1_frame MSG_HB_ACK (be16_read f 4) now []] \<and>
    frame_valid (v1_frame MSG_HB_ACK (be16_read f 4) now []) \<and>
    be16_read (v1_frame MSG_HB_ACK (be16_read f 4) now []) 4 = be16_read f 4 \<and>
    be32_read (v1_frame MSG_HB_ACK (be16_read f 4) now []) 6 = now \<and>
    take 4 (drop 6 (v1_frame MSG_HB_ACK (be16_read f 4) now [])) = be32_write now"
proof -
  from assms(1) have len: "14 \<le> length f" "length f \<le> 512"
    by (simp_all add: frame_valid_length)
  then have "f \<noteq> []"
    by auto
  with assms len have feed: "protocol_feed_bytes f s = s\<lparr>rxbuf := f, protocol_flag := 1\<rparr>"
    by (intro feed_into_empty) simp_all
  have "uart_tx (protocol_process now (s\<lparr>rxbuf := f, protocol_flag := 1\<rparr>)) =
      uart_tx s @ [hb_ack_frame (be16_read f 4) now]"
    using assms(2)
    by (simp add: protocol_process_def process_rx_buffer_one [OF assms(1)] dispatch_frame_def
        Let_def handle_msg_hb_def MSG_HB_def MSG_PWM_def)
  then have tx: "uart_tx (protocol_process now (protocol_feed_bytes f s)) =
      uart_tx s @ [v1_frame MSG_HB_ACK (be16_read f 4) now []]"
    by (simp only: feed hb_ack_frame_v1)
  have fields: "be16_read (v1_frame MSG_HB_ACK (be16_read f 4) now []) 4 = be16_read f 4"
    "be32_read (v1_frame MSG_HB_ACK (be16_read f 4) now []) 6 = now"
    using v1_frame_fields(5,6) [where rest = "[]" and msg = MSG_HB_ACK and seq = "be16_read f 4"
        and ticks = now and payload = "[]"]
    by simp_all
  show ?thesis
    by (simp add: tx fields v1_frame_valid v1_frame_ticks_bytes)
qed

text \<open>The theorem at a heartbeat with sequence 7 and tick \<open>0x01020304\<close>, drained at tick 5.\<close>

theorem heartbeat_ack_reply_witness:
  "uart_tx (protocol_process 5 (protocol_feed_bytes (v1_frame MSG_HB 7 0x01020304 [])
      (protocol_init 0))) = [v1_frame MSG_HB_ACK 7 5 []] \<and>
   be16_read (v1_frame MSG_HB_ACK 7 5 []) 4 = 7 \<and>
   be32_read (v1_frame MSG_HB_ACK 7 5 []) 6 = 5"
proof -
  let ?f = "v1_frame MSG_HB 7 0x01020304 []"
  have seq: "be16_read ?f 4 = 7"
    using v1_frame_fields(5) [where rest = "[]" and msg = MSG_HB and seq = 7
        and ticks = "0x01020304" and payload = "[]"]
    by simp
  have h: "frame_valid ?f" "?f ! 3 = MSG_HB" "rxbuf (protocol_init 0) = []"
    "protocol_flag (protocol_init 0) = 0"
    by (simp_all add: v1_frame_valid v1_frame_fields protocol_init_def)
  from heartbeat_ack_reply [OF h, of 5] show ?thesis
    by (simp add: seq protocol_init_def)
qed

text \<open>
  Claim C9 as stated fails: the same heartbeat carries the timestamp bytes \<open>01 02 03 04\<close>;
  the acknowledgement has the same sequence bytes but the timestamp bytes \<open>00 00 00 05\<close>.
\<close>

theorem heartbeat_ack_timestamp_counterexample:
  "frame_valid (v1_frame MSG_HB 7 0x01020304 []) \<and>
   take 4 (drop 6 (v1_frame MSG_HB 7 0x01020304 [])) = [1, 2, 3, 4] \<and>
   uart_tx (protocol_process 5 (protocol_feed_bytes (v1_frame MSG_HB 7 0x01020304 [])
      (protocol_init 0))) = [v1_frame MSG_HB_ACK 7 5 []] \<and>
   take 2 (drop 4 (v1_frame MSG_HB_ACK 7 5 [])) =
     take 2 (drop 4 (v1_frame MSG_HB 7 0x01020304 [])) \<and>
   take 4 (drop 6 (v1_frame MSG_HB_ACK 7 5 [])) = [0, 0, 0, 5]"
proof -
  let ?f = "v1_frame MSG_HB 7 0x01020304 []"
  have valid: "frame_valid ?f"
    by (simp add: v1_frame_valid)
  have seq: "be16_read ?f 4 = 7" and msg: "?f ! 3 = MSG_HB"
    using v1_frame_fields(5) [where rest = "[]" and msg = MSG_HB and seq = 7
        and ticks = "0x01020304" and payload = "[]"]
    by (simp_all add: v1_frame_fields)
  have len: "length ?f = 14"
    by (simp add: v1_frame_length)
  have feed: "protocol_feed_bytes ?f (protocol_init 0) =
      (protocol_init 0)\<lparr>rxbuf := ?f, protocol_flag := 1\<rparr>"
    using len by (intro feed_into_empty) (auto simp: protocol_init_def)
  have tx: "uart_tx (protocol_process 5 (protocol_feed_bytes ?f (protocol_init 0))) =
      [v1_frame MSG_HB_ACK 7 5 []]"
    by (simp only: feed)
      (simp add: protocol_process_def process_rx_buffer_one [OF valid] dispatch_frame_def Let_def
        handle_msg_hb_def MSG_HB_def MSG_PWM_def msg [unfolded MSG_HB_def] seq [unfolded MSG_HB_def]
        hb_ack_frame_v1
        protocol_init_def)
  have b1: "be32_write 0x01020304 = [1, 2, 3, 4]" and b2: "be32_write 5 = [0, 0, 0, 5]"
    by (simp_all add: be32_write_def)
  show ?thesis
    by (simp add: valid tx v1_frame_ticks_bytes v1_frame_seq_bytes b1 b2)
qed

subsection \<open>Which frames refresh the liveness timestamp\<close>

text \<open>
  Claim C7, as amended. After initialisation the timestamp \<^verbatim>\<open>s_last_ok_rx_ms\<close> has two
  writers. On the reception path it is written when and only when a validated frame of
  kind COMMAND or HEARTBEAT is dispatched: one call of \<^verbatim>\<open>try_parse_one_frame\<close> sets it to
  the current tick if the buffer starts with a valid frame of one of these two kinds, and
  leaves it alone otherwise (no frame, an incomplete or corrupt one, a HEARTBEAT\_ACK, any
  other message id); one drain sets it to the current tick if at least one of the frames
  it dispatched is of these two kinds, and leaves it alone otherwise. The other writer is
  \<^verbatim>\<open>protocol_poll\<close>: when the timeout has expired it sets the timestamp to the current
  tick although no frame is dispatched, and otherwise leaves it alone. Ingesting bytes
  and setting the timeout do not touch it.
\<close>

theorem liveness_refresh_by_kind:
  "last_ok_rx_ms (snd (snd (try_parse_one_frame now s))) =
     (if frame_at (rxbuf s) \<and>
         (f_msg (frame_of (rxbuf s)) = MSG_PWM \<or> f_msg (frame_of (rxbuf s)) = MSG_HB)
      then now else last_ok_rx_ms s) \<and>
   last_ok_rx_ms (process_rx_buffer now s) =
     (if \<exists>fr \<in> set (drop (length (dispatched s)) (dispatched (process_rx_buffer now s))).
           f_msg fr = MSG_PWM \<or> f_msg fr = MSG_HB
      then now else last_ok_rx_ms s) \<and>
   last_ok_rx_ms (protocol_poll now s) =
     (if now - last_ok_rx_ms s > failsafe_timeout_ms s then now else last_ok_rx_ms s) \<and>
   dispatched (protocol_poll now s) = dispatched s \<and>
   last_ok_rx_ms (protocol_feed_bytes data s) = last_ok_rx_ms s \<and>
   last_ok_rx_ms (protocol_set_failsafe_timeout_ms ms s) = last_ok_rx_ms s"
proof -
  have one: "last_ok_rx_ms (snd (snd (try_parse_one_frame now s))) =
     (if frame_at (rxbuf s) \<and>
         (f_msg (frame_of (rxbuf s)) = MSG_PWM \<or> f_msg (frame_of (rxbuf s)) = MSG_HB)
      then now else last_ok_rx_ms s)"
    by (cases rule: try_parse_cases [of s now])
      (simp_all add: dispatch_frame_last_ok frame_of_def)
  from drain_last_ok [of now s] obtain new where
    "dispatched (process_rx_buffer now s) = dispatched s @ new"
    "last_ok_rx_ms (process_rx_buffer now s) =
       (if \<exists>fr \<in> set new. f_msg fr = MSG_PWM \<or> f_msg fr = MSG_HB then now
        else last_ok_rx_ms s)"
    by blast
  then have drain: "last_ok_rx_ms (process_rx_buffer now s) =
     (if \<exists>fr \<in> set (drop (length (dispatched s)) (dispatched (process_rx_buffer now s))).
           f_msg fr = MSG_PWM \<or> f_msg fr = MSG_HB
      then now else last_ok_rx_ms s)"
    by simp
  have poll: "last_ok_rx_ms (protocol_poll now s) =
     (if now - last_ok_rx_ms s > failsafe_timeout_ms s then now else last_ok_rx_ms s)"
    "dispatched (protocol_poll now s) = dispatched s"
    by (simp_all add: protocol_poll_def enter_failsafe_mid_all_def)
  have other: "last_ok_rx_ms (protocol_feed_bytes data s) = last_ok_rx_ms s"
    "last_ok_rx_ms (protocol_set_failsafe_timeout_ms ms s) = last_ok_rx_ms s"
    by (simp_all add: protocol_feed_bytes_def protocol_set_failsafe_timeout_ms_def Let_def
        split: prod.splits)
  from one drain poll other show ?thesis
    by (simp only: simp_thms)
qed

text \<open>
  The theorem at time 100 with the timestamp at 0: a HEARTBEAT\_ACK, a frame with the
  reserved id \<open>0x20\<close> and 20 bytes of noise leave it at 0; a HEARTBEAT and a COMMAND set it
  to 100; a poll at 100 with the timeout of 300 leaves it at 0.
\<close>

theorem liveness_refresh_by_kind_witness:
  "last_ok_rx_ms (snd (snd (try_parse_one_frame 100
      ((protocol_init 0)\<lparr>rxbuf := v1_frame MSG_HB_ACK 1 2 []\<rparr>)))) = 0 \<and>
   last_ok_rx_ms (snd (snd (try_parse_one_frame 100
      ((protocol_init 0)\<lparr>rxbuf := v1_frame 0x20 1 2 []\<rparr>)))) = 0 \<and>
   last_ok_rx_ms (snd (snd (try_parse_one_frame 100
      ((protocol_init 0)\<lparr>rxbuf := v1_frame MSG_HB 1 2 []\<rparr>)))) = 100 \<and>
   last_ok_rx_ms (snd (snd (try_parse_one_frame 100
      ((protocol_init 0)\<lparr>rxbuf := v1_frame MSG_PWM 1 2 (replicate 16 0)\<rparr>)))) = 100 \<and>
   last_ok_rx_ms (snd (snd (try_parse_one_frame 100
      ((protocol_init 0)\<lparr>rxbuf := replicate 20 0xFF\<rparr>)))) = 0 \<and>
   last_ok_rx_ms (protocol_poll 100 (protocol_init 0)) = 0"
proof -
  have fr: "frame_at (v1_frame msg seq ticks [])"
      "frame_of (v1_frame msg seq ticks []) = Frame msg seq ticks []"
      "frame_at (v1_frame msg seq ticks (replicate 16 0))"
      "frame_of (v1_frame msg seq ticks (replicate 16 0)) = Frame msg seq ticks (replicate 16 0)"
    for msg seq ticks
    using v1_frame_at(1,2) [of "[]" msg seq ticks "[]"]
      v1_frame_at(1,2) [of "replicate 16 0" msg seq ticks "[]"]
    by simp_all
  have noise: "\<not> frame_at (replicate 20 0xFF)"
    by (simp add: frame_at_def)
  show ?thesis
    using liveness_refresh_by_kind [of 100 "(protocol_init 0)\<lparr>rxbuf := v1_frame MSG_HB_ACK 1 2 []\<rparr>"]
      liveness_refresh_by_kind [of 100 "(protocol_init 0)\<lparr>rxbuf := v1_frame 0x20 1 2 []\<rparr>"]
      liveness_refresh_by_kind [of 100 "(protocol_init 0)\<lparr>rxbuf := v1_frame MSG_HB 1 2 []\<rparr>"]
      liveness_refresh_by_kind [of 100
        "(protocol_init 0)\<lparr>rxbuf := v1_frame MSG_PWM 1 2 (replicate 16 0)\<rparr>"]
      liveness_refresh_by_kind [of 100 "(protocol_init 0)\<lparr>rxbuf := replicate 20 0xFF\<rparr>"]
      liveness_refresh_by_kind [of 100 "protocol_init 0"]
    by (simp add: fr noise protocol_init_def MSG_PWM_def MSG_HB_def MSG_HB_ACK_def
        CFG_FAILSAFE_TIMEOUT_MS_def)
qed

text \<open>
  Claim C7 as stated fails for \<^verbatim>\<open>protocol_poll\<close>: initialised at tick 0 with the timeout
  of 300 ms and polled at tick 301 with nothing received, the device has dispatched no
  frame, and the timestamp has gone from 0 to 301.
\<close>

theorem liveness_poll_counterexample:
  "last_ok_rx_ms (protocol_init 0) = 0 \<and>
   failsafe_timeout_ms (protocol_init 0) = 300 \<and>
   dispatched (protocol_poll 301 (protocol_init 0)) = [] \<and>
   last_ok_rx_ms (protocol_poll 301 (protocol_init 0)) = 301"
  by (simp add: protocol_poll_def protocol_init_def CFG_FAILSAFE_TIMEOUT_MS_def
      enter_failsafe_mid_all_def)

subsection \<open>Draining noise\<close>

text \<open>
  Claim C8. The receive buffer never holds more than its capacity of 512 bytes: an ingest
  keeps the bound and a drain only shrinks the buffer. A drain is a total function (its
  termination is proved with the definition of \<open>process_rx_buffer\<close>), and the number of
  its loop iterations is at most the buffer capacity. If no position of the buffer
  starts a valid frame (pure noise), the drain dispatches no frame and causes no output.
\<close>

theorem drain_terminates_bounded:
  assumes "length (rxbuf s) \<le> RX_BUF_CAP"
  shows "RX_BUF_CAP = 512 \<and>
    length (rxbuf (protocol_feed_bytes data s)) \<le> RX_BUF_CAP \<and>
    process_rx_iterations now (protocol_feed_bytes data s) \<le> RX_BUF_CAP \<and>
    length (rxbuf (protocol_process now (protocol_feed_bytes data s))) \<le> RX_BUF_CAP \<and>
    ((\<forall>i. \<not> frame_at (drop i (rxbuf (protocol_feed_bytes data s)))) \<longrightarrow>
       dispatched (protocol_process now (protocol_feed_bytes data s)) = dispatched s \<and>
       pwm_out (protocol_process now (protocol_feed_bytes data s)) = pwm_out s \<and>
       uart_tx (protocol_process now (protocol_feed_bytes data s)) = uart_tx s)"
proof -
  let ?s1 = "protocol_feed_bytes data s"
  have cap: "length (rxbuf ?s1) \<le> RX_BUF_CAP"
    using assms by (rule feed_capacity)
  have it: "process_rx_iterations now ?s1 \<le> RX_BUF_CAP"
    using drain_iterations [of now ?s1] cap by simp
  have dr: "length (rxbuf (protocol_process now ?s1)) \<le> RX_BUF_CAP"
    using drain_shrinks [of now ?s1] cap by (simp add: protocol_process_def)
  have same: "dispatched ?s1 = dispatched s" "pwm_out ?s1 = pwm_out s" "uart_tx ?s1 = uart_tx s"
    by (simp_all add: protocol_feed_bytes_def Let_def split: prod.splits)
  have "dispatched (protocol_process now ?s1) = dispatched s \<and>
      pwm_out (protocol_process now ?s1) = pwm_out s \<and>
      uart_tx (protocol_process now ?s1) = uart_tx s"
    if "\<forall>i. \<not> frame_at (drop i (rxbuf ?s1))"
    using drain_noise [OF that, of now] same by (simp add: protocol_process_def)
  with cap it dr show ?thesis
    by (simp add: RX_BUF_CAP_def)
qed

text \<open>The theorem at 60 bytes \<open>0xFF\<close> fed to the initial state.\<close>

theorem drain_terminates_bounded_witness:
  "process_rx_iterations 0 (protocol_feed_bytes (replicate 60 0xFF) (protocol_init 0)) \<le> 512 \<and>
   length (rxbuf (protocol_process 0 (protocol_feed_bytes (replicate 60 0xFF) (protocol_init 0))))
     \<le> 512 \<and>
   dispatched (protocol_process 0 (protocol_feed_bytes (replicate 60 0xFF) (protocol_init 0))) = []"
proof -
  have h: "length (rxbuf (protocol_init 0)) \<le> RX_BUF_CAP"
    by (simp add: protocol_init_def)
  have feed: "protocol_feed_bytes (replicate 60 0xFF) (protocol_init 0) =
      (protocol_init 0)\<lparr>rxbuf := replicate 60 0xFF, protocol_flag := 1\<rparr>"
    by (intro feed_into_empty) (simp_all add: protocol_init_def)
  have noise: "\<forall>i. \<not> frame_at (drop i (rxbuf (protocol_feed_bytes (replicate 60 0xFF)
      (protocol_init 0))))"
    by (auto simp: feed frame_at_def PROTO_VER_1_def)
  from drain_terminates_bounded [OF h, of "replicate 60 0xFF" 0] noise show ?thesis
    by (simp add: RX_BUF_CAP_def protocol_init_def)
qed

subsection \<open>The shaper: slew limit\<close>




text \<open>
  The state of the first run is reached through the interface: initialise with this
  configuration, then set all eight targets to 10.
\<close>

lemma step_slew_example_reachable:
  "snd (pwm_ctrl_set_targets_mask 0xFF (Some (replicate 8 10))
      (snd (pwm_ctrl_init (Some (example_cfg (f32_round 0.3) 0)) PWMH_OK ctrl_boot))) =
   ctrl_at (example_cfg (f32_round 0.3) 0) (replicate 8 7.5) (replicate 8 10) 0 0"
  unfolding f32_literals
  by (simp add: pwm_ctrl_init_example)
     (simp add: pwm_ctrl_set_targets_mask_def ctrl_at_def example_cfg_def clamp_pct_def
       ch_in_mask_def upt_8 replicate_8)

subsection \<open>The shaper: reversal through neutral\<close>

text \<open>
  Claim C4, as amended. Reverse protection is on and the configured range consists of
  binary32 numbers with \<open>0 < min_pct \<le> mid_pct \<le> max_pct \<le> 2 * mid_pct\<close>. A channel has
  a current value between the midpoint and the maximum and a target below the band of the
  side test, that is below \<^verbatim>\<open>mid - 1e-6f\<close>. Then along any run of \<^verbatim>\<open>pwm_ctrl_step\<close> calls
  (with any emit results, in either group mode), before the first call that leaves the
  channel below the midpoint there is a moment at which the channel's current value lies
  between \<open>mid_pct\<close> and \<^verbatim>\<open>mid + 1e-6f\<close>, both computed in single precision: the reversal
  passes through the band that the side test takes for the midpoint, not necessarily
  through the exact value.
\<close>

theorem reverse_reaches_neutral_band:
  assumes "enable_reverse_protection (s_cfg s) \<noteq> 0" and "0 < min_pct (s_cfg s)"
    and "min_pct (s_cfg s) \<le> mid_pct (s_cfg s)" and "mid_pct (s_cfg s) \<le> max_pct (s_cfg s)"
    and "max_pct (s_cfg s) \<le> 2 * mid_pct (s_cfg s)"
    and "is_f32 (min_pct (s_cfg s))" and "is_f32 (mid_pct (s_cfg s))"
    and "is_f32 (max_pct (s_cfg s))"
    and "i < 8" and "is_f32 (s_current_pct s ! i)"
    and "mid_pct (s_cfg s) \<le> s_current_pct s ! i" and "s_current_pct s ! i \<le> max_pct (s_cfg s)"
    and "s_target_pct s ! i < f32_sub (mid_pct (s_cfg s)) REV_EPS"
    and "s_current_pct (pwm_ctrl_steps (take n rcs) s) ! i < mid_pct (s_cfg s)"
  shows "\<exists>m<n. mid_pct (s_cfg s) \<le> s_current_pct (pwm_ctrl_steps (take m rcs) s) ! i \<and>
      s_current_pct (pwm_ctrl_steps (take m rcs) s) ! i \<le> f32_add (mid_pct (s_cfg s)) REV_EPS"
proof -
  define cur where "cur k = s_current_pct (pwm_ctrl_steps (take k rcs) s) ! i" for k
  define mid where "mid = mid_pct (s_cfg s)"
  define top where "top = f32_add mid REV_EPS"
  have keep: "is_f32 (cur (Suc k)) \<and> cur (Suc k) \<le> max_pct (s_cfg s)"
    if "is_f32 (cur k)" and "cur k \<le> max_pct (s_cfg s)" for k
  proof (cases "k < length rcs")
    case True
    let ?t = "pwm_ctrl_steps (take k rcs) s"
    have "is_f32 (s_current_pct (snd (pwm_ctrl_step (rcs ! k) ?t)) ! i) \<and>
        s_current_pct (snd (pwm_ctrl_step (rcs ! k) ?t)) ! i \<le> max_pct (s_cfg ?t)"
      using assms(2-4,6,8,9) that
      by (intro pwm_ctrl_step_keeps) (simp_all add: pwm_ctrl_steps_fields cur_def)
    with True show ?thesis
      by (simp add: cur_def pwm_ctrl_steps_take_Suc pwm_ctrl_steps_fields)
  next
    case False
    with that show ?thesis
      by (simp add: cur_def pwm_ctrl_steps_take_Suc)
  qed
  have step: "mid \<le> cur (Suc k)"
    if "top < cur k" and "is_f32 (cur k)" and "cur k \<le> max_pct (s_cfg s)" for k
  proof (cases "k < length rcs")
    case True
    let ?t = "pwm_ctrl_steps (take k rcs) s"
    have "mid_pct (s_cfg ?t) \<le> s_current_pct (snd (pwm_ctrl_step (rcs ! k) ?t)) ! i"
      using assms(1-5,7,9,13) that
      by (intro pwm_ctrl_step_toward_mid)
        (simp_all add: pwm_ctrl_steps_fields cur_def mid_def top_def)
    with True show ?thesis
      by (simp add: cur_def mid_def pwm_ctrl_steps_take_Suc pwm_ctrl_steps_fields)
  next
    case False
    have "mid \<le> top"
      unfolding top_def mid_def using assms(7) by (rule band_upper)
    with False that(1) show ?thesis
      by (simp add: cur_def pwm_ctrl_steps_take_Suc)
  qed
  have inv: "(\<exists>m<k. mid \<le> cur m \<and> cur m \<le> top) \<or>
      (mid \<le> cur k \<and> is_f32 (cur k) \<and> cur k \<le> max_pct (s_cfg s))" for k
  proof (induction k)
    case 0
    show ?case
      using assms(10-12) by (simp add: cur_def mid_def)
  next
    case (Suc k)
    show ?case
    proof (cases "\<exists>m<k. mid \<le> cur m \<and> cur m \<le> top")
      case True
      then show ?thesis
        using less_Suc_eq by blast
    next
      case False
      with Suc have ge: "mid \<le> cur k" "is_f32 (cur k)" "cur k \<le> max_pct (s_cfg s)"
        by blast+
      show ?thesis
      proof (cases "cur k \<le> top")
        case True
        with ge(1) show ?thesis
          by blast
      next
        case False
        then have "mid \<le> cur (Suc k)"
          using ge(2,3) by (intro step) simp_all
        with keep [OF ge(2,3)] show ?thesis
          by blast
      qed
    qed
  qed
  from inv [of n] assms(14) show ?thesis
    by (simp add: cur_def mid_def top_def)
qed

text \<open>
  The theorem in the range 8 / 16 / 24 with the step 7.99999809265136718750 (a binary32
  number), in the mode that updates all channels. The upper end of the band,
  \<^verbatim>\<open>16.0f + 1e-6f\<close>, is 16.0000019073486328125, the binary32 number next to 16. From 24
  the channel goes to 16.0000019073486328125, inside the band, and then to
  8.000003814697265625.
\<close>

theorem reverse_reaches_neutral_band_witness:
  "f32_add 16 REV_EPS = 16.0000019073486328125 \<and>
   map (\<lambda>rcs. s_current_pct (pwm_ctrl_steps rcs
          (ctrl_at (wide_cfg 7.9999980926513671875 0) (replicate 8 24) (replicate 8 8) 0 0)) ! 0)
       [[], [PWMH_OK], [PWMH_OK, PWMH_OK]] =
     [24, 16.0000019073486328125, 8.000003814697265625] \<and>
   (\<exists>m<2. 16 \<le> s_current_pct (pwm_ctrl_steps (take m [PWMH_OK, PWMH_OK])
        (ctrl_at (wide_cfg 7.9999980926513671875 0) (replicate 8 24) (replicate 8 8) 0 0)) ! 0 \<and>
      s_current_pct (pwm_ctrl_steps (take m [PWMH_OK, PWMH_OK])
        (ctrl_at (wide_cfg 7.9999980926513671875 0) (replicate 8 24) (replicate 8 8) 0 0)) ! 0
        \<le> f32_add 16 REV_EPS)"
proof -
  let ?s = "ctrl_at (wide_cfg 7.9999980926513671875 0) (replicate 8 24) (replicate 8 8) 0 0"
  have top: "f32_add 16 REV_EPS = 16.0000019073486328125"
    by (simp add: REV_EPS_value f32_eval cong: let_weak_cong)
  have bot: "f32_sub 16 REV_EPS = 15.99999904632568359375"
    by (simp add: REV_EPS_value f32_eval cong: let_weak_cong)
  have f32: "is_f32 8" "is_f32 16" "is_f32 24"
    by (simp_all add: is_f32_def f32_eval cong: let_weak_cong)
  have run: "map (\<lambda>rcs. s_current_pct (pwm_ctrl_steps rcs ?s) ! 0)
       [[], [PWMH_OK], [PWMH_OK, PWMH_OK]] =
     [24, 16.0000019073486328125, 8.000003814697265625]"
    by (simp add: channel_eval wide_cfg_def cong: let_weak_cong)
  have h: "enable_reverse_protection (s_cfg ?s) \<noteq> 0" "0 < min_pct (s_cfg ?s)"
    "min_pct (s_cfg ?s) \<le> mid_pct (s_cfg ?s)" "mid_pct (s_cfg ?s) \<le> max_pct (s_cfg ?s)"
    "max_pct (s_cfg ?s) \<le> 2 * mid_pct (s_cfg ?s)"
    "is_f32 (min_pct (s_cfg ?s))" "is_f32 (mid_pct (s_cfg ?s))" "is_f32 (max_pct (s_cfg ?s))"
    "(0 :: nat) < 8" "is_f32 (s_current_pct ?s ! 0)"
    "mid_pct (s_cfg ?s) \<le> s_current_pct ?s ! 0" "s_current_pct ?s ! 0 \<le> max_pct (s_cfg ?s)"
    "s_target_pct ?s ! 0 < f32_sub (mid_pct (s_cfg ?s)) REV_EPS"
    by (simp_all add: ctrl_at_def wide_cfg_def f32 bot)
  have below: "s_current_pct (pwm_ctrl_steps (take 2 [PWMH_OK, PWMH_OK]) ?s) ! 0
      < mid_pct (s_cfg ?s)"
    using run by (simp add: ctrl_at_def wide_cfg_def)
  have mid: "mid_pct (s_cfg ?s) = 16"
    by (simp add: ctrl_at_def wide_cfg_def)
  from reverse_reaches_neutral_band [OF h below] top run show ?thesis
    by (simp only: mid)
qed

text \<open>
  Claim C4 as stated fails in the default range with the step 2.49999952316284179688 (the
  binary32 number nearest to 2.4999995): the values of channel 1 are 10,
  7.500000476837158203125 and 5.00000095367431640625, so the channel is below the
  midpoint 7.5 after the second call without ever having been exactly at 7.5. The upper
  end of the band, \<^verbatim>\<open>7.5f + 1e-6f\<close>, is 7.50000095367431640625; at
  7.500000476837158203125 the side test no longer counts the channel as above the
  midpoint, and the next call heads for the target.
\<close>

theorem reverse_exact_mid_counterexample:
  "enable_reverse_protection (example_cfg (f32_round 2.4999995) 0) = 1 \<and>
   min_pct (example_cfg (f32_round 2.4999995) 0) = 5 \<and>
   mid_pct (example_cfg (f32_round 2.4999995) 0) = 7.5 \<and>
   max_pct (example_cfg (f32_round 2.4999995) 0) = 10 \<and>
   f32_add 7.5 REV_EPS = 7.50000095367431640625 \<and>
   map (\<lambda>rcs. s_current_pct (pwm_ctrl_steps rcs
          (ctrl_at (example_cfg (f32_round 2.4999995) 0) (replicate 8 10) (replicate 8 5) 0 0)) ! 0)
       [[], [PWMH_OK], [PWMH_OK, PWMH_OK]] =
     [10, 7.500000476837158203125, 5.00000095367431640625]"
  unfolding f32_literals by (simp add: channel_eval cong: let_weak_cong)

text \<open>
  The starting state of that run is reached through the interface: initialise with this
  configuration, target 10 on channel 1, two calls, then target 5 on channel 1.
\<close>

lemma reverse_example_reachable:
  "s_current_pct (snd (pwm_ctrl_set_target_pct 1 5 (pwm_ctrl_steps [PWMH_OK, PWMH_OK]
      (snd (pwm_ctrl_set_target_pct 1 10
        (snd (pwm_ctrl_init (Some (example_cfg (f32_round 2.4999995) 0)) PWMH_OK
          ctrl_boot))))))) ! 0 = 10 \<and>
   s_target_pct (snd (pwm_ctrl_set_target_pct 1 5 (pwm_ctrl_steps [PWMH_OK, PWMH_OK]
      (snd (pwm_ctrl_set_target_pct 1 10
        (snd (pwm_ctrl_init (Some (example_cfg (f32_round 2.4999995) 0)) PWMH_OK
          ctrl_boot))))))) ! 0 = 5"
  unfolding f32_literals
  by (simp add: pwm_ctrl_init_example pwm_ctrl_steps_fields)
     (simp add: channel_eval cong: let_weak_cong)

text \<open>
  The bound \<open>max_pct \<le> 2 * mid_pct\<close> of the amended claim makes the difference
  \<^verbatim>\<open>mid - cur\<close> exact. Without it the rounding of this difference can carry a channel
  past the band in one call: in the range \<^verbatim>\<open>0.0005f\<close> / \<^verbatim>\<open>0.001f\<close> / 1000 with the step
  2000, a channel at 1000 with target \<^verbatim>\<open>0.0005f\<close> goes to 0.0009765625, which is below
  \<^verbatim>\<open>0.001f - 1e-6f\<close>.
\<close>

lemma reverse_wide_range_example:
  "s_current_pct (snd (pwm_ctrl_step PWMH_OK
      (ctrl_at
        \<lparr> ctrl_hz = 50, max_step_pct = 2000, min_pct = f32_round 0.0005,
          mid_pct = f32_round 0.001, max_pct = 1000, enable_reverse_protection = 1,
          groupA_mask = 0x0F, groupB_mask = 0xF0, group_mode = 0 \<rparr>
        (replicate 8 1000) (replicate 8 (f32_round 0.0005)) 0 0))) ! 0 = 0.0009765625 \<and>
   (0.0009765625 :: real) < f32_sub (f32_round 0.001) REV_EPS"
  by (simp add: channel_eval cong: let_weak_cong)

subsection \<open>The shaper: a failed emit\<close>

text \<open>
  What a failed emit leaves behind: the error code, and the state untouched except for
  \<^verbatim>\<open>s_group_toggle\<close>, which \<^verbatim>\<open>active_mask_for_this_step\<close> has already flipped when the
  mode is not the one that updates all channels.
\<close>

lemma pwm_ctrl_step_failure:
  assumes "rc \<noteq> PWMH_OK" and "s_inited s \<noteq> 0"
  shows "pwm_ctrl_step rc s =
    (PWM_CTRL_ERR_INTERNAL,
     if group_mode (s_cfg s) = PWM_CTRL_GROUP_MODE_ALL then s
     else s\<lparr>s_group_toggle := (if s_group_toggle s = 0 then 1 else 0)\<rparr>)"
  using assms by (simp add: pwm_ctrl_step_def active_mask_for_this_step_def Let_def)

text \<open>
  Claim C5 at an input where it fails. In the A/B mode (groups \<open>0x0F\<close> and \<open>0xF0\<close>, step
  \<^verbatim>\<open>0.2f\<close>), all channels at 7.5 with target 10, a call whose emit fails returns
  \<^verbatim>\<open>PWM_CTRL_ERR_INTERNAL\<close> and keeps the current values and the step counter, but the
  toggle goes from 0 to 1. The group of the call was A (a successful call moves channel
  1 to 7.69999980926513671875, the binary32 sum of 7.5 and \<^verbatim>\<open>0.2f\<close>, and leaves channel
  5); the retry after the failure runs group B instead (channel 5 moves, channel 1 stays
  at 7.5).
\<close>

theorem step_failure_flips_group:
  "fst (pwm_ctrl_step PWMH_ESYS
      (ctrl_at (example_cfg (f32_round 0.2) 1) (replicate 8 7.5) (replicate 8 10) 0 0)) =
     PWM_CTRL_ERR_INTERNAL \<and>
   snd (pwm_ctrl_step PWMH_ESYS
      (ctrl_at (example_cfg (f32_round 0.2) 1) (replicate 8 7.5) (replicate 8 10) 0 0)) =
     ctrl_at (example_cfg (f32_round 0.2) 1) (replicate 8 7.5) (replicate 8 10) 0 1 \<and>
   fst (active_mask_for_this_step
      (ctrl_at (example_cfg (f32_round 0.2) 1) (replicate 8 7.5) (replicate 8 10) 0 0)) = 0x0F \<and>
   fst (active_mask_for_this_step
      (ctrl_at (example_cfg (f32_round 0.2) 1) (replicate 8 7.5) (replicate 8 10) 0 1)) = 0xF0 \<and>
   map (\<lambda>i. s_current_pct (snd (pwm_ctrl_step PWMH_OK
      (ctrl_at (example_cfg (f32_round 0.2) 1) (replicate 8 7.5) (replicate 8 10) 0 0))) ! i)
      [0, 4] = [7.69999980926513671875, 7.5] \<and>
   map (\<lambda>i. s_current_pct (snd (pwm_ctrl_step PWMH_OK (snd (pwm_ctrl_step PWMH_ESYS
      (ctrl_at (example_cfg (f32_round 0.2) 1) (replicate 8 7.5) (replicate 8 10) 0 0))))) ! i)
      [0, 4] = [7.5, 7.69999980926513671875]"
proof -
  let ?s = "ctrl_at (example_cfg (f32_round 0.2) 1) (replicate 8 7.5) (replicate 8 10) 0 0"
  have fail: "pwm_ctrl_step PWMH_ESYS ?s =
      (PWM_CTRL_ERR_INTERNAL,
       ctrl_at (example_cfg (f32_round 0.2) 1) (replicate 8 7.5) (replicate 8 10) 0 1)"
    using pwm_ctrl_step_failure [of PWMH_ESYS ?s]
    by (simp add: ctrl_at_def example_cfg_def PWM_CTRL_GROUP_MODE_ALL_def)
  show ?thesis
    unfolding f32_literals fail [unfolded f32_literals]
    by (simp add: channel_eval cong: let_weak_cong)
qed

text \<open>
  The state of that input is reached through the interface: initialise with this
  configuration, then set all eight targets to 10.
\<close>

lemma step_failure_example_reachable:
  "snd (pwm_ctrl_set_targets_mask 0xFF (Some (replicate 8 10))
      (snd (pwm_ctrl_init (Some (example_cfg (f32_round 0.2) 1)) PWMH_OK ctrl_boot))) =
   ctrl_at (example_cfg (f32_round 0.2) 1) (replicate 8 7.5) (replicate 8 10) 0 0"
  unfolding f32_literals
  by (simp add: pwm_ctrl_init_example)
     (simp add: pwm_ctrl_set_targets_mask_def ctrl_at_def example_cfg_def clamp_pct_def
       ch_in_mask_def upt_8 replicate_8)

subsection \<open>Negative targets\<close>

text \<open>
  Claim C10. In an initialised shaper whose configuration came from \<^verbatim>\<open>pwm_ctrl_init\<close>, a
  negative percentage given to \<^verbatim>\<open>pwm_ctrl_set_target_pct\<close> for a channel 1 to 8, or to
  \<^verbatim>\<open>pwm_ctrl_set_targets_mask\<close> for a channel of the mask, stores the configured midpoint
  as the channel's target, which lies strictly above the configured minimum; the
  midpoint of the default configuration is \<^verbatim>\<open>PWM_HOST_PCT_MID\<close>, 7.5. On the host side,
  \<^verbatim>\<open>pwm_host_set_all_pct\<close> with an open socket turns a negative percentage into the wire
  value 5000: it is the channel's shadow value, and the channel's value in the payload of
  the COMMAND frame handed to the socket, as the device decodes it.
\<close>

theorem negative_target_is_mid:
  assumes "s_inited s \<noteq> 0" and "s_cfg s = init_config cfg0" and "length (s_target_pct s) = 8"
    and "1 \<le> ch" and "ch \<le> 8" and "pct < 0"
    and "i < 8" and "ch_in_mask (int i + 1) msk" and "pcts ! i < 0"
    and "0 \<le> h_sock h"
  shows "fst (pwm_ctrl_set_target_pct ch pct s) = PWM_CTRL_OK \<and>
    s_target_pct (snd (pwm_ctrl_set_target_pct ch pct s)) ! nat (ch - 1) = mid_pct (s_cfg s) \<and>
    fst (pwm_ctrl_set_targets_mask msk (Some pcts) s) = PWM_CTRL_OK \<and>
    s_target_pct (snd (pwm_ctrl_set_targets_mask msk (Some pcts) s)) ! i = mid_pct (s_cfg s) \<and>
    min_pct (s_cfg s) < mid_pct (s_cfg s) \<and>
    mid_pct (init_config None) = PWM_HOST_PCT_MID \<and> PWM_HOST_PCT_MID = 7.5 \<and>
    h_shadow (snd (pwm_host_set_all_pct sent_ok ticks pcts h)) ! i = 5000 \<and>
    (\<exists>payload. h_sent (snd (pwm_host_set_all_pct sent_ok ticks pcts h)) =
        h_sent h @ [v1_frame MSG_PWM (h_seq h + 1) ticks payload] \<and>
      length payload = 16 \<and> pwm_payload_values payload ! i = 5000)"
proof -
  from assms(2) init_config_ordered [of cfg0]
  have ord: "0 < min_pct (s_cfg s)" "min_pct (s_cfg s) < mid_pct (s_cfg s)"
    "mid_pct (s_cfg s) < max_pct (s_cfg s)"
    by simp_all
  have mid: "clamp_pct (s_cfg s) (mid_pct (s_cfg s)) = mid_pct (s_cfg s)"
    using ord by (rule clamp_pct_mid)
  have single: "fst (pwm_ctrl_set_target_pct ch pct s) = PWM_CTRL_OK"
    "s_target_pct (snd (pwm_ctrl_set_target_pct ch pct s)) ! nat (ch - 1) = mid_pct (s_cfg s)"
    using assms(1,3-6) by (simp_all add: pwm_ctrl_set_target_pct_def Let_def mid)
  have masked: "fst (pwm_ctrl_set_targets_mask msk (Some pcts) s) = PWM_CTRL_OK"
    "s_target_pct (snd (pwm_ctrl_set_targets_mask msk (Some pcts) s)) ! i = mid_pct (s_cfg s)"
    using assms(1,7-9)
    by (simp_all add: pwm_ctrl_set_targets_mask_target mid) (simp add: pwm_ctrl_set_targets_mask_def)
  define vv where "vv = map (\<lambda>j. pwm_host_percent_to_u16
      (if pcts ! j < 0 then PWM_HOST_PCT_MID else pcts ! j)) [0..<8]"
  define p16 where "p16 = map (\<lambda>j. if vv ! j > 10000 then 10000 else vv ! j) [0..<8]"
  have call: "pwm_host_set_all_pct sent_ok ticks pcts h = pwm_host_set_all_u16 sent_ok ticks vv h"
    using assms(10) by (simp add: pwm_host_set_all_pct_def Let_def vv_def del: upt_Suc)
  have vvi: "vv ! i = 5000"
    using assms(7,9) by (simp add: vv_def pwm_host_percent_to_u16_mid del: upt_Suc)
  have p16i: "p16 ! i = 5000"
    using assms(7) vvi by (simp add: p16_def del: upt_Suc)
  have len: "length p16 = 8"
    by (simp add: p16_def)
  have vals: "pwm_payload_values (concat (map be16_write p16)) ! i = 5000"
    using assms(7) len p16i by (simp add: pwm_payload_values_concat)
  have plen: "length (concat (map be16_write p16)) = 16"
    using concat_be16_length [of "\<lambda>v. v" p16] len by simp
  from pwm_host_set_all_u16_sent [OF assms(10), of sent_ok ticks vv]
  have host: "h_shadow (snd (pwm_host_set_all_pct sent_ok ticks pcts h)) = p16"
    "h_sent (snd (pwm_host_set_all_pct sent_ok ticks pcts h)) =
       h_sent h @ [v1_frame MSG_PWM (h_seq h + 1) ticks (concat (map be16_write p16))]"
    by (simp_all only: call p16_def)
  have "\<exists>payload. h_sent (snd (pwm_host_set_all_pct sent_ok ticks pcts h)) =
        h_sent h @ [v1_frame MSG_PWM (h_seq h + 1) ticks payload] \<and>
      length payload = 16 \<and> pwm_payload_values payload ! i = 5000"
    using host(2) plen vals by blast
  moreover have "h_shadow (snd (pwm_host_set_all_pct sent_ok ticks pcts h)) ! i = 5000"
    by (simp only: host(1) p16i)
  moreover have "mid_pct (init_config None) = PWM_HOST_PCT_MID" "PWM_HOST_PCT_MID = 7.5"
    by (simp_all add: init_config_default example_cfg_def PWM_HOST_PCT_MID_def)
  ultimately show ?thesis
    using single masked ord(2) by simp
qed

text \<open>
  The theorem after a default initialisation, for channel 3 and the percentage \<open>-1\<close>.
\<close>

theorem negative_target_is_mid_witness:
  "s_target_pct (snd (pwm_ctrl_set_target_pct 3 (- 1)
      (snd (pwm_ctrl_init None PWMH_OK ctrl_boot)))) ! 2 = 7.5 \<and>
   s_target_pct (snd (pwm_ctrl_set_targets_mask 0x04 (Some (replicate 8 (- 1)))
      (snd (pwm_ctrl_init None PWMH_OK ctrl_boot)))) ! 2 = 7.5 \<and>
   h_shadow (snd (pwm_host_set_all_pct True 0 (replicate 8 (- 1))
      \<lparr>h_sock = 3, h_seq = 0, h_shadow = replicate 8 0, h_tx_pwm = 0, h_tx_err = 0,
        h_sent = []\<rparr>)) ! 2 = 5000"
proof -
  let ?s = "snd (pwm_ctrl_init None PWMH_OK ctrl_boot)"
  let ?h = "\<lparr>h_sock = 3, h_seq = 0, h_shadow = replicate 8 0, h_tx_pwm = 0, h_tx_err = 0,
        h_sent = []\<rparr>"
  have h: "s_inited ?s \<noteq> 0" "s_cfg ?s = init_config None" "length (s_target_pct ?s) = 8"
    "(1 :: int) \<le> 3" "(3 :: int) \<le> 8" "(- 1 :: real) < 0" "(2 :: nat) < 8"
    "ch_in_mask (int 2 + 1) 0x04" "replicate 8 (- 1 :: real) ! 2 < 0" "0 \<le> h_sock ?h"
    by (simp_all add: pwm_ctrl_init_ok ctrl_at_def ch_in_mask_def)
  have mid: "mid_pct (s_cfg ?s) = 7.5"
    by (simp add: pwm_ctrl_init_default ctrl_at_def example_cfg_def)
  from negative_target_is_mid [OF h, of True 0] show ?thesis
    by (simp add: mid)
qed

end
